theory Spec2Isabelle
  imports
    Main
    "HOL-Library.List_Lexorder"
    "HOL-Library.Product_Lexorder"
    "HOL-Library.Multiset"
begin

section \<open>Strings and cells\<close>

text \<open>
  The script \<^verbatim>\<open>scripts/make_plots.py\<close> works on Python strings, which are
  sequences of Unicode code points (the transcriptions hold characters such as U+02D0).
  A string is therefore a list of code points; Python compares two strings code point by
  code point, a proper prefix being smaller, which is the lexicographic order on lists.
\<close>

type_synonym pystr = "nat list"

definition str :: "string \<Rightarrow> pystr" where
  "str s = map of_char s"

text \<open>
  The characters \<^verbatim>\<open>str.strip()\<close> removes when it is called with no argument:
  those for which \<^verbatim>\<open>str.isspace\<close> holds.
\<close>

definition isspace :: "nat \<Rightarrow> bool" where
  "isspace c \<longleftrightarrow>
     (9 \<le> c \<and> c \<le> 13) \<or> (28 \<le> c \<and> c \<le> 32) \<or> c = 133 \<or> c = 160 \<or> c = 5760 \<or>
     (8192 \<le> c \<and> c \<le> 8202) \<or> c = 8232 \<or> c = 8233 \<or> c = 8239 \<or> c = 8287 \<or> c = 12288"

definition strip :: "pystr \<Rightarrow> pystr" where
  "strip s = rev (dropWhile isspace (rev (dropWhile isspace s)))"

text \<open>
  A cell of a table as \<^verbatim>\<open>pd.read_csv\<close> delivers it: a missing value, a string,
  or an integer (a column of integers, as \<^verbatim>\<open>sense_id\<close> usually is). Cells of
  floating-point and boolean columns are outside the model.
\<close>

datatype cell = NaN | Str pystr | Num int

definition isna :: "cell \<Rightarrow> bool" where
  "isna v \<longleftrightarrow> v = NaN"

fun is_Str :: "cell \<Rightarrow> bool" where
  "is_Str (Str s) = True"
| "is_Str v = False"

fun is_Num :: "cell \<Rightarrow> bool" where
  "is_Num (Num n) = True"
| "is_Num v = False"

text \<open>
  The order pandas sorts a column by: integers before strings, integers by value, strings
  by code points; a missing value is put behind every value. The order is given by a key
  into a lexicographic product.
\<close>

fun cell_key :: "cell \<Rightarrow> nat \<times> int \<times> pystr" where
  "cell_key (Num n) = (0, n, [])"
| "cell_key (Str s) = (1, 0, s)"
| "cell_key NaN = (2, 0, [])"

instantiation cell :: linorder
begin

definition less_eq_cell :: "cell \<Rightarrow> cell \<Rightarrow> bool" where
  "less_eq_cell a b \<longleftrightarrow> cell_key a \<le> cell_key b"

definition less_cell :: "cell \<Rightarrow> cell \<Rightarrow> bool" where
  "less_cell a b \<longleftrightarrow> cell_key a < cell_key b"

instance
proof
  fix x y z :: cell
  have inj: "\<And>a b. cell_key a = cell_key b \<Longrightarrow> a = b"
  proof -
    fix a b show "cell_key a = cell_key b \<Longrightarrow> a = b"
      by (cases a; cases b) simp_all
  qed
  show "(x < y) = (x \<le> y \<and> \<not> y \<le> x)"
    unfolding less_eq_cell_def less_cell_def by (rule less_le_not_le)
  show "x \<le> x"
    unfolding less_eq_cell_def by simp
  show "x \<le> y \<Longrightarrow> y \<le> z \<Longrightarrow> x \<le> z"
    unfolding less_eq_cell_def by (rule order_trans)
  show "x \<le> y \<Longrightarrow> y \<le> x \<Longrightarrow> x = y"
    unfolding less_eq_cell_def by (rule inj) (rule antisym)
  show "x \<le> y \<or> y \<le> x"
    unfolding less_eq_cell_def by (rule linear)
qed

end

text \<open>
  \<^verbatim>\<open>Series.astype(str)\<close> applies \<^verbatim>\<open>str\<close> to every element: a string
  stays, an integer is written in decimal, and the missing value, a float, becomes the
  text \<^verbatim>\<open>nan\<close>. This is the behaviour of the pandas versions in which
  \<^verbatim>\<open>astype(str)\<close> gives an object column (those before 3.0); the claims about
  missing values are read against it.
\<close>

fun digits :: "nat \<Rightarrow> pystr" where
  "digits n = (if n < 10 then [48 + n] else digits (n div 10) @ [48 + n mod 10])"

declare digits.simps [simp del]

definition str_of_int :: "int \<Rightarrow> pystr" where
  "str_of_int i = (if i < 0 then 45 # digits (nat (- i)) else digits (nat i))"

fun astype_str :: "cell \<Rightarrow> cell" where
  "astype_str NaN = Str (str ''nan'')"
| "astype_str (Str s) = Str s"
| "astype_str (Num i) = Str (str_of_int i)"

text \<open>
  The \<^verbatim>\<open>.str\<close> accessor works element by element and gives a missing value for
  an element that is not a string.
\<close>

fun str_strip :: "cell \<Rightarrow> cell" where
  "str_strip (Str s) = Str (strip s)"
| "str_strip v = NaN"


section \<open>Tables\<close>

text \<open>
  A \<^verbatim>\<open>DataFrame\<close>: the column labels in order, and the rows in order. A row gives
  the cell of every column of the table; what it gives for a label that is not a column is
  never read, since every read checks the label first and raises \<^verbatim>\<open>KeyError\<close>.
\<close>

type_synonym row = "pystr \<Rightarrow> cell"

record dataframe =
  columns :: "pystr list"
  rows :: "row list"

datatype error =
    NoInput
  | MissingColumns "pystr set"
  | ReadError pystr
  | NoObjectsToConcatenate
  | KeyError pystr
  | TypeError

text \<open>A row written as a list of labelled cells.\<close>

definition row_of :: "(pystr \<times> cell) list \<Rightarrow> row" where
  "row_of kvs = (\<lambda>c. case map_of kvs c of Some v \<Rightarrow> v | None \<Rightarrow> NaN)"

text \<open>The cells of the listed columns, row by row: a view of a table for reading results.\<close>

definition cells :: "pystr list \<Rightarrow> dataframe \<Rightarrow> cell list list" where
  "cells cs df = map (\<lambda>r. map r cs) (rows df)"

text \<open>Reading the cell of a column back from the list of a row's cells.\<close>

definition sel :: "pystr list \<Rightarrow> cell list \<Rightarrow> pystr \<Rightarrow> cell" where
  "sel cs vs c = (case map_of (zip cs vs) c of Some v \<Rightarrow> v | None \<Rightarrow> NaN)"

text \<open>\<^verbatim>\<open>df[c]\<close>: the column as a list of cells.\<close>

definition column :: "dataframe \<Rightarrow> pystr \<Rightarrow> error + cell list" where
  "column df c = (if c \<in> set (columns df) then Inr (map (\<lambda>r. r c) (rows df)) else Inl (KeyError c))"

text \<open>
  \<^verbatim>\<open>df[dst] = value\<close> with a scalar: the column is overwritten where it stands,
  or added as the last column.
\<close>

definition add_column :: "pystr \<Rightarrow> pystr list \<Rightarrow> pystr list" where
  "add_column c cols = (if c \<in> set cols then cols else cols @ [c])"

definition assign_scalar :: "pystr \<Rightarrow> cell \<Rightarrow> dataframe \<Rightarrow> dataframe" where
  "assign_scalar dst v df =
     \<lparr>columns = add_column dst (columns df), rows = map (\<lambda>r. r(dst := v)) (rows df)\<rparr>"

text \<open>
  \<^verbatim>\<open>df[dst] = f(df[src])\<close> for an element-wise \<^verbatim>\<open>f\<close>: reading the column
  \<^verbatim>\<open>src\<close> raises when the table has no such column.
\<close>

definition assign_from :: "pystr \<Rightarrow> pystr \<Rightarrow> (cell \<Rightarrow> cell) \<Rightarrow> dataframe \<Rightarrow> error + dataframe" where
  "assign_from dst src f df =
     (if src \<in> set (columns df)
      then Inr \<lparr>columns = add_column dst (columns df),
                rows = map (\<lambda>r. r(dst := f (r src))) (rows df)\<rparr>
      else Inl (KeyError src))"

text \<open>The first occurrences of the elements of a list, in order.\<close>

definition uniq :: "'a list \<Rightarrow> 'a list" where
  "uniq xs = rev (remdups (rev xs))"

text \<open>
  \<^verbatim>\<open>pd.concat(dfs, ignore_index=True)\<close>: the columns are the union of the tables'
  columns in order of first appearance, the rows follow table by table, and a cell of a
  column its table lacks is missing. An empty list of tables is refused.
\<close>

definition reindex :: "pystr list \<Rightarrow> row \<Rightarrow> row" where
  "reindex cols r = (\<lambda>c. if c \<in> set cols then r c else NaN)"

definition pd_concat :: "dataframe list \<Rightarrow> error + dataframe" where
  "pd_concat dfs =
     (if List.null dfs then Inl NoObjectsToConcatenate
      else Inr \<lparr>columns = uniq (concat (map columns dfs)),
                rows = concat (map (\<lambda>df. map (reindex (columns df)) (rows df)) dfs)\<rparr>)"

section \<open>load_data\<close>

text \<open>
  The directory as the loader sees it: the name of every entry, with what
  \<^verbatim>\<open>pd.read_csv\<close> does on it, either the parsed table or the message of the error
  it raises. Entries are in the order the file system lists them.
\<close>

type_synonym directory = "(pystr \<times> (pystr + dataframe)) list"

text \<open>
  The pattern \<^verbatim>\<open>heteronyms_*.csv\<close>: the star stands for any run of characters,
  also the empty one (names are compared case-sensitively, as on POSIX).
\<close>

definition glob_match :: "pystr \<Rightarrow> bool" where
  "glob_match name \<longleftrightarrow>
     15 \<le> length name \<and> take 11 name = str ''heteronyms_'' \<and>
     drop (length name - 4) name = str ''.csv''"

definition glob :: "directory \<Rightarrow> directory" where
  "glob data_dir = filter (\<lambda>e. glob_match (fst e)) data_dir"

text \<open>
  The loop of \<^verbatim>\<open>load_data\<close>: read each path in turn, tag the table with the file's
  name, collect. An error of the reader ends the loop and the function.
\<close>

fun read_all :: "directory \<Rightarrow> error + dataframe list" where
  "read_all [] = Inr []"
| "read_all ((name, f) # paths) =
     (case f of
        Inl msg \<Rightarrow> Inl (ReadError msg)
      | Inr df \<Rightarrow>
          (case read_all paths of
             Inl e \<Rightarrow> Inl e
           | Inr dfs \<Rightarrow> Inr (assign_scalar (str ''source_file'') (Str name) df # dfs)))"

definition required :: "pystr set" where
  "required = {str ''language'', str ''word'', str ''sense_id'', str ''meaning'', str ''ipa''}"

text \<open>
  The normalisation pass: three column assignments, in the source's order. What the three
  together do to one row is \<^verbatim>\<open>norm_row\<close>.
\<close>

definition norm_cell :: "cell \<Rightarrow> cell" where
  "norm_cell v = str_strip (astype_str v)"

definition norm_row :: "row \<Rightarrow> row" where
  "norm_row r =
     ((r(str ''word'' := norm_cell (r (str ''word''))))
         (str ''language'' := norm_cell (r (str ''language''))))
         (str ''ipa'' := norm_cell (r (str ''ipa'')))"

definition normalize :: "dataframe \<Rightarrow> error + dataframe" where
  "normalize data =
     (case assign_from (str ''word'') (str ''word'') norm_cell data of
        Inl e \<Rightarrow> Inl e
      | Inr d1 \<Rightarrow>
          (case assign_from (str ''language'') (str ''language'') norm_cell d1 of
             Inl e \<Rightarrow> Inl e
           | Inr d2 \<Rightarrow> assign_from (str ''ipa'') (str ''ipa'') norm_cell d2))"

text \<open>\<^verbatim>\<open>sorted(data_dir.glob(...))\<close>: the matching entries in the order of their names.\<close>

definition paths :: "directory \<Rightarrow> directory" where
  "paths data_dir = sort_key fst (glob data_dir)"

text \<open>
  A directory whose entries all parse, given by names and tables; and the table the loop
  of \<^verbatim>\<open>load_data\<close> makes of a file.
\<close>

definition as_files :: "(pystr \<times> dataframe) list \<Rightarrow> directory" where
  "as_files files = map (\<lambda>f. (fst f, Inr (snd f))) files"

definition tagged :: "pystr \<times> dataframe \<Rightarrow> dataframe" where
  "tagged f = assign_scalar (str ''source_file'') (Str (fst f)) (snd f)"

text \<open>
  The columns the files of a directory have between them, and the row of the loaded table
  that the row \<^verbatim>\<open>r\<close> of the file \<^verbatim>\<open>f\<close> becomes.
\<close>

definition file_columns :: "(pystr \<times> dataframe) list \<Rightarrow> pystr set" where
  "file_columns files = (\<Union>f\<in>set files. set (columns (snd f)))"

definition loaded_row :: "pystr \<times> dataframe \<Rightarrow> row \<Rightarrow> row" where
  "loaded_row f r = norm_row (reindex (columns (tagged f)) (r(str ''source_file'' := Str (fst f))))"

definition load_data :: "directory \<Rightarrow> error + dataframe" where
  "load_data data_dir =
     (case read_all (paths data_dir) of
        Inl e \<Rightarrow> Inl e
      | Inr dfs \<Rightarrow>
          if List.null dfs then Inl NoInput
          else
            (case pd_concat dfs of
               Inl e \<Rightarrow> Inl e
             | Inr data \<Rightarrow>
                 let missing = required - set (columns data)
                 in if missing \<noteq> {} then Inl (MissingColumns missing) else normalize data))"

section \<open>Table operations used by the charts\<close>

text \<open>Errors are passed on as an exception is: the first one ends the computation.\<close>

definition bind_err :: "'e + 'a \<Rightarrow> ('a \<Rightarrow> 'e + 'b) \<Rightarrow> 'e + 'b" where
  "bind_err m f = (case m of Inl e \<Rightarrow> Inl e | Inr x \<Rightarrow> f x)"

text \<open>The first label of a list that is not a column of the table, if there is one.\<close>

definition missing_label :: "dataframe \<Rightarrow> pystr list \<Rightarrow> pystr option" where
  "missing_label df cs = (case filter (\<lambda>c. c \<notin> set (columns df)) cs of [] \<Rightarrow> None | c # _ \<Rightarrow> Some c)"

text \<open>
  \<^verbatim>\<open>Series.nunique()\<close>: the number of distinct values, missing ones not counted.
\<close>

definition nunique :: "cell list \<Rightarrow> nat" where
  "nunique vs = length (remdups (filter (\<lambda>v. \<not> isna v) vs))"

text \<open>
  \<^verbatim>\<open>df.groupby(by, as_index=False).agg(out=(src, "nunique"), ...)\<close>: one row for
  every distinct combination of the key columns in which no key is missing, in the order
  of the keys; the row holds the keys and, for every named aggregation, the number of
  distinct values of its source column among the rows of the group.
\<close>

definition group_keys :: "pystr list \<Rightarrow> dataframe \<Rightarrow> cell list list" where
  "group_keys by df = sort (remdups (filter (\<lambda>k. NaN \<notin> set k) (map (\<lambda>r. map r by) (rows df))))"

definition group_rows :: "pystr list \<Rightarrow> dataframe \<Rightarrow> cell list \<Rightarrow> row list" where
  "group_rows by df k = filter (\<lambda>r. map r by = k) (rows df)"

definition agg_row :: "pystr list \<Rightarrow> (pystr \<times> pystr) list \<Rightarrow> dataframe \<Rightarrow> cell list \<Rightarrow> row" where
  "agg_row by aggs df k =
     row_of (zip by k @
             map (\<lambda>a. (fst a, Num (int (nunique (map (\<lambda>r. r (snd a)) (group_rows by df k)))))) aggs)"

definition groupby_nunique :: "pystr list \<Rightarrow> (pystr \<times> pystr) list \<Rightarrow> dataframe \<Rightarrow> error + dataframe" where
  "groupby_nunique by aggs df =
     (case missing_label df (by @ map snd aggs) of
        Some c \<Rightarrow> Inl (KeyError c)
      | None \<Rightarrow> Inr \<lparr>columns = by @ map fst aggs, rows = map (agg_row by aggs df) (group_keys by df)\<rparr>)"

text \<open>
  \<^verbatim>\<open>df.sort_values(by, ascending=[...])\<close>: a stable sort of the rows by the listed
  columns, each ascending or descending, the first column deciding first; a missing value
  comes last in either direction.
\<close>

fun before :: "bool \<Rightarrow> cell \<Rightarrow> cell \<Rightarrow> bool" where
  "before asc NaN y = False"
| "before asc x NaN = True"
| "before asc x y = (if asc then x < y else y < x)"

fun row_le :: "(pystr \<times> bool) list \<Rightarrow> row \<Rightarrow> row \<Rightarrow> bool" where
  "row_le [] a b = True"
| "row_le ((c, asc) # by) a b = (before asc (a c) (b c) \<or> (a c = b c \<and> row_le by a b))"

fun insort_by :: "('a \<Rightarrow> 'a \<Rightarrow> bool) \<Rightarrow> 'a \<Rightarrow> 'a list \<Rightarrow> 'a list" where
  "insort_by le x [] = [x]"
| "insort_by le x (y # ys) = (if le x y then x # y # ys else y # insort_by le x ys)"

definition sort_by :: "('a \<Rightarrow> 'a \<Rightarrow> bool) \<Rightarrow> 'a list \<Rightarrow> 'a list" where
  "sort_by le xs = foldr (insort_by le) xs []"

definition sort_values :: "(pystr \<times> bool) list \<Rightarrow> dataframe \<Rightarrow> error + dataframe" where
  "sort_values by df =
     (case missing_label df (map fst by) of
        Some c \<Rightarrow> Inl (KeyError c)
      | None \<Rightarrow> Inr (df\<lparr>rows := sort_by (row_le by) (rows df)\<rparr>))"

text \<open>
  \<^verbatim>\<open>df.head(n)\<close> is \<^verbatim>\<open>df.iloc[:n]\<close>: the first \<^verbatim>\<open>n\<close> rows, and for a
  negative \<^verbatim>\<open>n\<close> all rows but the last \<^verbatim>\<open>-n\<close>.
\<close>

definition head :: "int \<Rightarrow> dataframe \<Rightarrow> dataframe" where
  "head n df =
     df\<lparr>rows := (if 0 \<le> n then take (nat n) (rows df)
                 else take (length (rows df) - nat (- n)) (rows df))\<rparr>"

text \<open>
  \<^verbatim>\<open>df[(df[c1] == v1) & (df[c2] == v2)]\<close>: the rows equal to the two values in the
  two columns; a missing cell equals nothing.
\<close>

definition cell_eq :: "cell \<Rightarrow> cell \<Rightarrow> bool" where
  "cell_eq a b \<longleftrightarrow> a = b \<and> \<not> isna a"

definition where_eq2 :: "pystr \<Rightarrow> cell \<Rightarrow> pystr \<Rightarrow> cell \<Rightarrow> dataframe \<Rightarrow> error + dataframe" where
  "where_eq2 c1 v1 c2 v2 df =
     (case missing_label df [c1, c2] of
        Some c \<Rightarrow> Inl (KeyError c)
      | None \<Rightarrow> Inr (df\<lparr>rows := filter (\<lambda>r. cell_eq (r c1) v1 \<and> cell_eq (r c2) v2) (rows df)\<rparr>))"

text \<open>\<^verbatim>\<open>df[[c, ...]]\<close>: the table of the listed columns.\<close>

definition select_columns :: "pystr list \<Rightarrow> dataframe \<Rightarrow> error + dataframe" where
  "select_columns cs df =
     (case missing_label df cs of
        Some c \<Rightarrow> Inl (KeyError c)
      | None \<Rightarrow> Inr \<lparr>columns = cs, rows = map (reindex cs) (rows df)\<rparr>)"

text \<open>
  \<^verbatim>\<open>df.dropna()\<close> keeps the rows with no missing cell;
  \<^verbatim>\<open>df.drop_duplicates()\<close> keeps the first of the rows that agree in every column.
\<close>

definition dropna :: "dataframe \<Rightarrow> dataframe" where
  "dropna df = df\<lparr>rows := filter (\<lambda>r. NaN \<notin> set (map r (columns df))) (rows df)\<rparr>"

fun first_by :: "('a \<Rightarrow> 'k) \<Rightarrow> 'k list \<Rightarrow> 'a list \<Rightarrow> 'a list" where
  "first_by key seen [] = []"
| "first_by key seen (x # xs) =
     (if key x \<in> set seen then first_by key seen xs else x # first_by key (key x # seen) xs)"

definition drop_duplicates :: "dataframe \<Rightarrow> dataframe" where
  "drop_duplicates df = df\<lparr>rows := first_by (\<lambda>r. map r (columns df)) [] (rows df)\<rparr>"

text \<open>
  Python's \<^verbatim>\<open>sorted\<close> on a list of cells without missing values: comparing a
  string with an integer raises \<^verbatim>\<open>TypeError\<close>, which happens exactly when the
  list holds both.
\<close>

definition py_sorted :: "cell list \<Rightarrow> error + cell list" where
  "py_sorted vs =
     (if list_all is_Str vs \<or> list_all is_Num vs then Inr (sort vs) else Inl TypeError)"

section \<open>The charts\<close>

text \<open>
  Drawing is left to the plotting library and is not modelled: each chart function is
  modelled up to the table it hands to the drawing calls.

  \<^verbatim>\<open>plot_variant_counts\<close>, lines 34 to 40: the local table \<^verbatim>\<open>counts\<close>.
  The abbreviations name the arguments of the calls: the key columns of
  \<^verbatim>\<open>groupby\<close>, the named aggregations of \<^verbatim>\<open>agg\<close> (output column and
  source column, each counted with \<^verbatim>\<open>nunique\<close>), and the columns of
  \<^verbatim>\<open>sort_values\<close> with their \<^verbatim>\<open>ascending\<close> flags.
\<close>

abbreviation by_word :: "pystr list" where
  "by_word \<equiv> [str ''language'', str ''word'']"

abbreviation counts_aggs :: "(pystr \<times> pystr) list" where
  "counts_aggs \<equiv> [(str ''n_variants'', str ''ipa''), (str ''n_senses'', str ''sense_id'')]"

abbreviation counts_order :: "(pystr \<times> bool) list" where
  "counts_order \<equiv>
     [(str ''language'', True), (str ''n_variants'', False),
      (str ''n_senses'', False), (str ''word'', True)]"

abbreviation words_aggs :: "(pystr \<times> pystr) list" where
  "words_aggs \<equiv> [(str ''n_variants'', str ''ipa'')]"

abbreviation words_order :: "(pystr \<times> bool) list" where
  "words_order \<equiv> [(str ''n_variants'', False), (str ''language'', True), (str ''word'', True)]"

definition variant_counts :: "dataframe \<Rightarrow> error + dataframe" where
  "variant_counts data =
     bind_err (groupby_nunique by_word counts_aggs data) (sort_values counts_order)"

text \<open>\<^verbatim>\<open>plot_word_cards\<close>, lines 100 to 105: the local table \<^verbatim>\<open>words\<close>.\<close>

definition selected_words :: "dataframe \<Rightarrow> int \<Rightarrow> error + dataframe" where
  "selected_words data max_words =
     bind_err
       (bind_err (groupby_nunique by_word words_aggs data) (sort_values words_order))
       (\<lambda>sorted_words. Inr (head max_words sorted_words))"

text \<open>
  Lines 107 to 112: the body of the loop builds, for the row \<^verbatim>\<open>r\<close> of
  \<^verbatim>\<open>words\<close>, the tuple of language, word, \<^verbatim>\<open>ipas\<close> and
  \<^verbatim>\<open>meanings\<close>; the loop collects the tuples in \<^verbatim>\<open>rows\<close>.
\<close>

type_synonym card = "cell \<times> cell \<times> cell list \<times> dataframe"

definition word_card :: "dataframe \<Rightarrow> row \<Rightarrow> error + card" where
  "word_card data r =
     bind_err (where_eq2 (str ''language'') (r (str ''language'')) (str ''word'') (r (str ''word'')) data)
       (\<lambda>subset.
          bind_err (column subset (str ''ipa''))
            (\<lambda>ipa_col.
               bind_err (py_sorted (uniq (filter (\<lambda>v. \<not> isna v) ipa_col)))
                 (\<lambda>ipas.
                    bind_err (select_columns [str ''ipa'', str ''meaning''] subset)
                      (\<lambda>pairs.
                         bind_err
                           (sort_values [(str ''ipa'', True), (str ''meaning'', True)]
                              (drop_duplicates (dropna pairs)))
                           (\<lambda>meanings.
                              Inr (r (str ''language''), r (str ''word''), ipas, meanings))))))"

fun word_cards_loop :: "dataframe \<Rightarrow> row list \<Rightarrow> error + card list" where
  "word_cards_loop data [] = Inr []"
| "word_cards_loop data (r # rs) =
     bind_err (word_card data r)
       (\<lambda>c. bind_err (word_cards_loop data rs) (\<lambda>cs. Inr (c # cs)))"

definition word_cards :: "dataframe \<Rightarrow> int \<Rightarrow> error + card list" where
  "word_cards data max_words =
     bind_err (selected_words data max_words) (\<lambda>words. word_cards_loop data (rows words))"

text \<open>
  What is to be shown of a card, for the table it is made from: the transcriptions are the
  distinct non-missing \<^verbatim>\<open>ipa\<close> values of the card's group, sorted; the table of
  meanings has the columns \<^verbatim>\<open>ipa\<close> and \<^verbatim>\<open>meaning\<close>, and its rows are the
  distinct pairs of the group with neither part missing, sorted by \<^verbatim>\<open>ipa\<close>, then
  \<^verbatim>\<open>meaning\<close>.
\<close>

definition card_ok :: "dataframe \<Rightarrow> card \<Rightarrow> bool" where
  "card_ok data c =
     (case c of (l, w, ipas, meanings) \<Rightarrow>
        sorted ipas \<and> distinct ipas \<and>
        set ipas = (\<lambda>x. x (str ''ipa'')) `
                     {x \<in> set (rows data). x (str ''language'') = l \<and> x (str ''word'') = w} - {NaN} \<and>
        columns meanings = [str ''ipa'', str ''meaning''] \<and>
        sorted (map (\<lambda>x. (x (str ''ipa''), x (str ''meaning''))) (rows meanings)) \<and>
        distinct (map (\<lambda>x. (x (str ''ipa''), x (str ''meaning''))) (rows meanings)) \<and>
        set (map (\<lambda>x. (x (str ''ipa''), x (str ''meaning''))) (rows meanings)) =
          {(x (str ''ipa''), x (str ''meaning'')) | x.
             x \<in> set (rows data) \<and> x (str ''language'') = l \<and> x (str ''word'') = w \<and>
             x (str ''ipa'') \<noteq> NaN \<and> x (str ''meaning'') \<noteq> NaN})"

section \<open>The table as a shared object\<close>







section \<open>Example inputs\<close>

text \<open>
  The tables of the two files of the specification's end-to-end scenario, and a directory
  that holds them beside a file the pattern does not match. The code points 720, 603, 712
  and 593 are the length mark, the open e, the stress mark and the open a of the
  transcriptions.
\<close>

definition csv_row :: "cell \<Rightarrow> cell \<Rightarrow> cell \<Rightarrow> cell \<Rightarrow> cell \<Rightarrow> row" where
  "csv_row l w s m i =
     row_of [(str ''language'', l), (str ''word'', w), (str ''sense_id'', s),
             (str ''meaning'', m), (str ''ipa'', i)]"

definition five_columns :: "pystr list" where
  "five_columns = [str ''language'', str ''word'', str ''sense_id'', str ''meaning'', str ''ipa'']"

definition en_table :: dataframe where
  "en_table =
     \<lparr>columns = five_columns,
      rows = [csv_row (Str (str ''en'')) (Str (str ''read'')) (Num 1) (Str (str ''present tense''))
                (Str [114, 105, 720, 100]),
              csv_row (Str (str ''en'')) (Str (str ''read'')) (Num 2) (Str (str ''past tense''))
                (Str [114, 603, 100])]\<rparr>"

definition sv_table :: dataframe where
  "sv_table =
     \<lparr>columns = five_columns,
      rows = [csv_row (Str (str ''sv'')) (Str (str ''banan'')) (Num 1) (Str (str ''fruit''))
                (Str [98, 97, 110, 712, 593, 720, 110])]\<rparr>"

definition example_dir :: directory where
  "example_dir =
     [(str ''heteronyms_sv.csv'', Inr sv_table),
      (str ''notes.txt'', Inl (str ''not a table'')),
      (str ''heteronyms_en.csv'', Inr en_table)]"

text \<open>
  A table before normalisation, with blanks around two strings and a missing word, and the
  same table after it.
\<close>

definition raw_table :: dataframe where
  "raw_table =
     \<lparr>columns = five_columns,
      rows = [csv_row (Str (str '' en'')) NaN (Num 1) (Str (str '' to read '')) (Str (114 # 105 # 720 # 100 # str '' ''))]\<rparr>"

definition clean_table :: dataframe where
  "clean_table =
     \<lparr>columns = five_columns,
      rows = [csv_row (Str (str ''en'')) (Str (str ''nan'')) (Num 1) (Str (str '' to read '')) (Str [114, 105, 720, 100])]\<rparr>"

text \<open>A file without the columns \<^verbatim>\<open>meaning\<close> and \<^verbatim>\<open>ipa\<close>, with a column of its own.\<close>

definition short_table :: dataframe where
  "short_table =
     \<lparr>columns = [str ''language'', str ''word'', str ''sense_id'', str ''note''],
      rows = [row_of [(str ''language'', Str (str ''en'')), (str ''word'', Str (str ''read'')),
                      (str ''sense_id'', Num 1), (str ''note'', Str (str ''x''))]]\<rparr>"

text \<open>
  A word with one sense and two transcriptions, and the same table with its first row
  repeated.
\<close>

definition one_sense :: dataframe where
  "one_sense =
     \<lparr>columns = five_columns,
      rows = [csv_row (Str (str ''en'')) (Str (str ''bow'')) (Num 1) (Str (str ''weapon'')) (Str [98, 111, 650]),
              csv_row (Str (str ''en'')) (Str (str ''bow'')) (Num 1) (Str (str ''weapon'')) (Str [98, 97, 650])]\<rparr>"

definition one_sense_dup :: dataframe where
  "one_sense_dup =
     \<lparr>columns = five_columns,
      rows = [csv_row (Str (str ''en'')) (Str (str ''bow'')) (Num 1) (Str (str ''weapon'')) (Str [98, 111, 650]),
              csv_row (Str (str ''en'')) (Str (str ''bow'')) (Num 1) (Str (str ''weapon'')) (Str [98, 97, 650]),
              csv_row (Str (str ''en'')) (Str (str ''bow'')) (Num 1) (Str (str ''weapon'')) (Str [98, 111, 650])]\<rparr>"

text \<open>
  A file with three English words: \<^verbatim>\<open>tear\<close> with two transcriptions and two senses,
  \<^verbatim>\<open>bow\<close> with two transcriptions and one sense, \<^verbatim>\<open>cat\<close> with one of each;
  and a directory with this file and the Swedish one.
\<close>

definition words_table :: dataframe where
  "words_table =
     \<lparr>columns = five_columns,
      rows = [csv_row (Str (str ''en'')) (Str (str ''cat'')) (Num 1) (Str (str ''animal'')) (Str [107, 230, 116]),
              csv_row (Str (str ''en'')) (Str (str ''bow'')) (Num 1) (Str (str ''weapon'')) (Str [98, 111, 650]),
              csv_row (Str (str ''en'')) (Str (str ''tear'')) (Num 1) (Str (str ''rip'')) (Str [116, 603, 114]),
              csv_row (Str (str ''en'')) (Str (str ''bow'')) (Num 1) (Str (str ''weapon'')) (Str [98, 97, 650]),
              csv_row (Str (str ''en'')) (Str (str ''tear'')) (Num 2) (Str (str ''drop'')) (Str [116, 618, 114])]\<rparr>"

definition words_dir :: directory where
  "words_dir =
     [(str ''heteronyms_sv.csv'', Inr sv_table), (str ''heteronyms_en.csv'', Inr words_table)]"

text \<open>The table \<^verbatim>\<open>load_data\<close> makes of that directory.\<close>

definition words_loaded :: dataframe where
  "words_loaded =
     \<lparr>columns = uniq (concat (map columns (map tagged
                  [(str ''heteronyms_en.csv'', words_table), (str ''heteronyms_sv.csv'', sv_table)]))),
      rows = concat (map (\<lambda>f. map (loaded_row f) (rows (snd f)))
                  [(str ''heteronyms_en.csv'', words_table), (str ''heteronyms_sv.csv'', sv_table)])\<rparr>"

text \<open>
  A file for the word cards: one word with a repeated row, a row without meaning and a row
  without transcription; the directory that holds it, and the table \<^verbatim>\<open>load_data\<close>
  makes of the directory.
\<close>

definition cards_table :: dataframe where
  "cards_table =
     \<lparr>columns = five_columns,
      rows = [csv_row (Str (str ''en'')) (Str (str ''bow'')) (Num 1) (Str (str ''weapon'')) (Str [98, 111, 650]),
              csv_row (Str (str ''en'')) (Str (str ''bow'')) (Num 2) (Str (str ''bend'')) (Str [98, 97, 650]),
              csv_row (Str (str ''en'')) (Str (str ''bow'')) (Num 1) (Str (str ''weapon'')) (Str [98, 111, 650]),
              csv_row (Str (str ''en'')) (Str (str ''bow'')) (Num 3) NaN (Str [98, 97, 650]),
              csv_row (Str (str ''en'')) (Str (str ''bow'')) (Num 4) (Str (str ''front'')) NaN]\<rparr>"

definition cards_dir :: directory where
  "cards_dir = [(str ''heteronyms_en.csv'', Inr cards_table)]"

definition cards_loaded :: dataframe where
  "cards_loaded =
     \<lparr>columns = uniq (concat (map columns (map tagged [(str ''heteronyms_en.csv'', cards_table)]))),
      rows = concat (map (\<lambda>f. map (loaded_row f) (rows (snd f))) [(str ''heteronyms_en.csv'', cards_table)])\<rparr>"

text \<open>A card as a tuple of cells: language, word, transcriptions, and the rows of the meanings.\<close>

definition card_cells :: "card \<Rightarrow> cell \<times> cell \<times> cell list \<times> cell list list" where
  "card_cells c =
     (fst c, fst (snd c), fst (snd (snd c)), cells [str ''ipa'', str ''meaning''] (snd (snd (snd c))))"


section \<open>The normalisation pass\<close>

lemma dropWhile_strip: "dropWhile isspace (strip s) = strip s"
proof -
  define t where "t = dropWhile isspace s"
  define u where "u = rev (dropWhile isspace (rev t))"
  have tu: "t = u @ rev (takeWhile isspace (rev t))"
  proof -
    show ?thesis unfolding u_def
      by (metis rev_append rev_rev_ident takeWhile_dropWhile_id)
  qed
  have "dropWhile isspace u = u"
  proof (cases u)
    case Nil then show ?thesis by simp
  next
    case (Cons x u')
    from tu Cons have "t = x # (u' @ rev (takeWhile isspace (rev t)))" by simp
    then have "hd t = x" and "t \<noteq> []" by (metis list.sel(1), metis list.distinct(1))
    moreover have "t \<noteq> [] \<Longrightarrow> \<not> isspace (hd t)" unfolding t_def by (rule hd_dropWhile)
    ultimately have "\<not> isspace x" by simp
    with Cons show ?thesis by simp
  qed
  then show ?thesis unfolding strip_def u_def t_def .
qed

lemma strip_idem: "strip (strip s) = strip s"
proof -
  have "strip (strip s) = rev (dropWhile isspace (rev (strip s)))"
    unfolding strip_def[of "strip s"] dropWhile_strip ..
  also have "\<dots> = strip s" unfolding strip_def by simp
  finally show ?thesis .
qed

lemma norm_cell_Str: "\<exists>s. norm_cell v = Str (strip s)"
  by (cases v; simp add: norm_cell_def; blast)

lemma norm_cell_idem: "norm_cell (norm_cell v) = norm_cell v"
proof -
  obtain s where "norm_cell v = Str (strip s)" using norm_cell_Str by blast
  then show ?thesis by (simp add: norm_cell_def strip_idem)
qed


lemma str_eq_iff [simp]: "str a = str b \<longleftrightarrow> a = b"
proof -
  have "inj (of_char :: char \<Rightarrow> nat)" by (simp add: inj_on_def)
  then show ?thesis unfolding str_def by (rule inj_map_eq_map)
qed

lemma names_distinct:
  "str ''word'' \<noteq> str ''language''" "str ''word'' \<noteq> str ''ipa''" "str ''language'' \<noteq> str ''ipa''"
  "str ''language'' \<noteq> str ''word''" "str ''ipa'' \<noteq> str ''word''" "str ''ipa'' \<noteq> str ''language''"
  by simp_all

lemma normalize_eq:
  "normalize df =
     (if str ''word'' \<in> set (columns df) \<and> str ''language'' \<in> set (columns df) \<and> str ''ipa'' \<in> set (columns df)
      then Inr \<lparr>columns = columns df, rows = map norm_row (rows df)\<rparr>
      else if str ''word'' \<notin> set (columns df) then Inl (KeyError (str ''word''))
      else if str ''language'' \<notin> set (columns df) then Inl (KeyError (str ''language''))
      else Inl (KeyError (str ''ipa'')))"
  by (auto simp: normalize_def assign_from_def add_column_def norm_row_def names_distinct fun_eq_iff)

lemma norm_row_idem: "norm_row (norm_row r) = norm_row r"
  by (auto simp: norm_row_def fun_eq_iff names_distinct norm_cell_idem)

section \<open>What load_data returns\<close>

lemma read_all_as_files: "read_all (as_files files) = Inr (map tagged files)"
  by (induction files) (auto simp: as_files_def tagged_def)

lemma read_all_Inl: "read_all ps = Inl e \<Longrightarrow> \<exists>msg. e = ReadError msg"
  by (induction ps arbitrary: e rule: read_all.induct) (auto split: sum.splits)

lemma read_all_Inr: "read_all ps = Inr dfs \<Longrightarrow> \<exists>files. ps = as_files files"
proof (induction ps arbitrary: dfs rule: read_all.induct)
  case 1
  have "[] = as_files []" by (simp add: as_files_def)
  then show ?case by blast
next
  case (2 name f paths)
  from "2.prems" obtain df dfs' where f: "f = Inr df" and r: "read_all paths = Inr dfs'"
    by (auto split: sum.splits)
  from "2.IH"[OF f r] obtain files where "paths = as_files files" by blast
  with f have "(name, f) # paths = as_files ((name, df) # files)" by (simp add: as_files_def)
  then show ?case by blast
qed

lemma read_all_Nil_iff: "read_all ps = Inr [] \<longleftrightarrow> ps = []"
  by (cases ps rule: read_all.cases) (auto split: sum.splits)

lemma paths_Nil_iff: "paths d = [] \<longleftrightarrow> glob d = []"
proof -
  have "length (paths d) = length (glob d)" by (simp add: paths_def)
  then show ?thesis by (metis length_0_conv)
qed

lemma normalize_cases: "(\<exists>c. normalize df = Inl (KeyError c)) \<or> (\<exists>d. normalize df = Inr d)"
  by (simp add: normalize_eq)

lemma load_data_NoInput_iff: "load_data d = Inl NoInput \<longleftrightarrow> glob d = []"
proof (cases "read_all (paths d)")
  case (Inl e)
  then obtain msg where "e = ReadError msg" using read_all_Inl by blast
  moreover from Inl have "paths d \<noteq> []" by auto
  moreover have "load_data d \<noteq> Inl NoInput" using Inl \<open>e = ReadError msg\<close> unfolding load_data_def by simp
  ultimately show ?thesis by (simp add: paths_Nil_iff)
next
  case (Inr dfs)
  show ?thesis
  proof (cases "dfs = []")
    case True
    with Inr have "paths d = []" by (simp add: read_all_Nil_iff)
    then have "glob d = []" by (simp add: paths_Nil_iff)
    moreover from Inr True have "read_all (paths d) = Inr []" by simp
    then have "load_data d = Inl NoInput" unfolding load_data_def by simp
    ultimately show ?thesis by simp
  next
    case False
    have "paths d \<noteq> []"
    proof
      assume "paths d = []"
      then have "read_all (paths d) = Inr []" by simp
      with Inr False show False by simp
    qed
    moreover have "load_data d \<noteq> Inl NoInput"
    proof -
      obtain data where c: "pd_concat dfs = Inr data" using False by (simp add: pd_concat_def)
      have l: "load_data d = (if required - set (columns data) \<noteq> {}
                 then Inl (MissingColumns (required - set (columns data))) else normalize data)"
        using Inr False c unfolding load_data_def by (simp add: Let_def)
      have "normalize data \<noteq> Inl NoInput" using normalize_cases[of data] by auto
      then show ?thesis unfolding l by simp
    qed
    ultimately show ?thesis by (simp add: paths_Nil_iff)
  qed
qed

lemma sf_distinct:
  "str ''source_file'' \<noteq> str ''word''" "str ''source_file'' \<noteq> str ''language''"
  "str ''source_file'' \<noteq> str ''ipa''" "str ''source_file'' \<notin> required"
  by (simp_all add: required_def)

lemma set_uniq [simp]: "set (uniq xs) = set xs"
  by (simp add: uniq_def)

lemma distinct_uniq [simp]: "distinct (uniq xs)"
  by (simp add: uniq_def)

lemma columns_tagged: "set (columns (tagged f)) = insert (str ''source_file'') (set (columns (snd f)))"
  by (auto simp: tagged_def assign_scalar_def add_column_def)

lemma rows_tagged: "rows (tagged f) = map (\<lambda>r. r(str ''source_file'' := Str (fst f))) (rows (snd f))"
  by (simp add: tagged_def assign_scalar_def)

lemma pd_concat_tagged:
  assumes "files \<noteq> []"
  shows "\<exists>data. pd_concat (map tagged files) = Inr data \<and>
           set (columns data) = insert (str ''source_file'') (file_columns files) \<and>
           rows data = concat (map (\<lambda>f. map (\<lambda>r. reindex (columns (tagged f)) (r(str ''source_file'' := Str (fst f)))) (rows (snd f))) files)"
proof -
  have 1: "(\<Union>f\<in>set files. set (columns (tagged f))) = insert (str ''source_file'') (file_columns files)"
    using assms by (cases files) (auto simp: columns_tagged file_columns_def)
  have 2: "map (\<lambda>df. map (reindex (columns df)) (rows df)) (map tagged files) =
           map (\<lambda>f. map (\<lambda>r. reindex (columns (tagged f)) (r(str ''source_file'' := Str (fst f)))) (rows (snd f))) files"
    by (simp add: rows_tagged comp_def)
  show ?thesis using assms 1 unfolding pd_concat_def 2[symmetric] by simp
qed

lemma load_data_files:
  assumes p: "paths d = as_files files" and ne: "files \<noteq> []"
  shows "load_data d =
     (if required \<subseteq> file_columns files
      then Inr \<lparr>columns = uniq (concat (map columns (map tagged files))),
                rows = concat (map (\<lambda>f. map (loaded_row f) (rows (snd f))) files)\<rparr>
      else Inl (MissingColumns (required - file_columns files)))"
proof -
  obtain data where c: "pd_concat (map tagged files) = Inr data"
    and cols: "set (columns data) = insert (str ''source_file'') (file_columns files)"
    and rws: "rows data = concat (map (\<lambda>f. map (\<lambda>r. reindex (columns (tagged f)) (r(str ''source_file'' := Str (fst f)))) (rows (snd f))) files)"
    using pd_concat_tagged[OF ne] by blast
  have colsd: "columns data = uniq (concat (map columns (map tagged files)))"
    using c ne by (auto simp: pd_concat_def)
  have m: "required - set (columns data) = required - file_columns files"
    using cols sf_distinct(4) by auto
  have l: "load_data d = (if required - file_columns files \<noteq> {}
                 then Inl (MissingColumns (required - file_columns files)) else normalize data)"
    using p ne c m unfolding load_data_def by (simp add: read_all_as_files Let_def)
  show ?thesis
  proof (cases "required \<subseteq> file_columns files")
    case False
    then show ?thesis unfolding l by auto
  next
    case True
    then have "required \<subseteq> set (columns data)" using cols by auto
    then have in3: "str ''word'' \<in> set (columns data)" "str ''language'' \<in> set (columns data)" "str ''ipa'' \<in> set (columns data)"
      by (auto simp: required_def)
    have "normalize data = Inr \<lparr>columns = columns data, rows = map norm_row (rows data)\<rparr>"
      unfolding normalize_eq using in3 by simp
    moreover have "map norm_row (rows data) = concat (map (\<lambda>f. map (loaded_row f) (rows (snd f))) files)"
      unfolding rws by (simp add: map_concat comp_def loaded_row_def[abs_def])
    ultimately show ?thesis unfolding l using True colsd by simp
  qed
qed

lemma loaded_row_cells:
  "loaded_row f r (str ''source_file'') = Str (fst f)"
  "c \<in> {str ''language'', str ''word'', str ''ipa''} \<Longrightarrow> loaded_row f r c = norm_cell (reindex (columns (snd f)) r c)"
  "c \<notin> {str ''language'', str ''word'', str ''ipa'', str ''source_file''} \<Longrightarrow> loaded_row f r c = reindex (columns (snd f)) r c"
  by (auto simp: loaded_row_def norm_row_def reindex_def columns_tagged)



lemma file_columns_concat:
  "files \<noteq> [] \<Longrightarrow> \<exists>cat. pd_concat (map tagged files) = Inr cat \<and> set (columns cat) = insert (str ''source_file'') (file_columns files)"
  using pd_concat_tagged by blast

text \<open>
  Claim C7. The normalisation pass of \<^verbatim>\<open>load_data\<close> is idempotent: run on a table
  it has already produced, it succeeds again and gives the same \<^verbatim>\<open>language\<close>,
  \<^verbatim>\<open>word\<close> and \<^verbatim>\<open>ipa\<close> columns; indeed it gives the same table. (On a
  table without one of the three columns the pass raises \<^verbatim>\<open>KeyError\<close>; inside
  \<^verbatim>\<open>load_data\<close> the check of the required columns comes first.)
\<close>

theorem normalize_idempotent:
  assumes "normalize df = Inr df1"
  shows "\<exists>df2. normalize df1 = Inr df2 \<and>
           column df2 (str ''language'') = column df1 (str ''language'') \<and>
           column df2 (str ''word'') = column df1 (str ''word'') \<and>
           column df2 (str ''ipa'') = column df1 (str ''ipa'') \<and> df2 = df1"
proof -
  from assms have "normalize df1 = Inr df1"
    by (auto simp: normalize_eq norm_row_idem split: if_splits)
  then show ?thesis by simp
qed

lemma normalize_raw_table: "normalize raw_table = Inr clean_table"
  by (simp add: normalize_eq raw_table_def clean_table_def five_columns_def norm_row_def csv_row_def
      row_of_def fun_eq_iff norm_cell_def strip_def isspace_def str_def)

text \<open>
  The pass on a table with blanks around the language and the transcription and with a
  missing word, and again on its result.
\<close>

theorem normalize_idempotent_witness:
  "normalize raw_table = Inr clean_table \<and> normalize clean_table = Inr clean_table \<and>
   column clean_table (str ''word'') = Inr [Str (str ''nan'')] \<and>
   column clean_table (str ''language'') = Inr [Str (str ''en'')] \<and>
   column clean_table (str ''ipa'') = Inr [Str [114, 105, 720, 100]]"
  using normalize_idempotent[OF normalize_raw_table] normalize_raw_table
  by (simp add: column_def clean_table_def five_columns_def csv_row_def row_of_def)

text \<open>
  Claim C4. \<^verbatim>\<open>load_data\<close> fails with the "no input" error if and only if no entry
  of the directory matches the pattern \<^verbatim>\<open>heteronyms_*.csv\<close>, and then it raises
  no "missing columns" error, whatever set of columns the error would name.
\<close>

theorem load_data_no_input:
  "(load_data data_dir = Inl NoInput \<longleftrightarrow> glob data_dir = []) \<and>
   (glob data_dir = [] \<longrightarrow> load_data data_dir \<noteq> Inl (MissingColumns M))"
proof -
  have 1: "load_data data_dir = Inl NoInput \<longleftrightarrow> glob data_dir = []"
    by (rule load_data_NoInput_iff)
  then have "glob data_dir = [] \<longrightarrow> load_data data_dir \<noteq> Inl (MissingColumns M)" by auto
  with 1 show ?thesis by blast
qed

text \<open>
  An empty directory, a directory whose two entries miss the pattern, and the example
  directory, which holds two matching files.
\<close>

theorem load_data_no_input_witness:
  "load_data [] = Inl NoInput \<and>
   load_data [(str ''notes.txt'', Inr en_table), (str ''heteronyms_en.txt'', Inr short_table)] = Inl NoInput \<and>
   load_data example_dir \<noteq> Inl NoInput"
  using load_data_no_input[of "[]"]
    load_data_no_input[of "[(str ''notes.txt'', Inr en_table), (str ''heteronyms_en.txt'', Inr short_table)]"]
    load_data_no_input[of example_dir]
  by (simp add: glob_def glob_match_def example_dir_def str_def)

text \<open>
  Claim C5. When the matching files, all read, are at least one, the table concatenated
  from them has the columns of the files and \<^verbatim>\<open>source_file\<close>;
  \<^verbatim>\<open>load_data\<close> fails with the "missing columns" error exactly when that table
  lacks one of the five required columns, the error then names exactly the required
  columns that are missing, and otherwise \<^verbatim>\<open>load_data\<close> returns a table,
  whatever further columns there are.
\<close>

theorem load_data_missing_columns:
  assumes "paths data_dir = as_files files" and "files \<noteq> []"
  shows "\<exists>cat. pd_concat (map tagged files) = Inr cat \<and>
           set (columns cat) = insert (str ''source_file'') (file_columns files) \<and>
           (\<not> required \<subseteq> set (columns cat) \<longrightarrow>
              load_data data_dir = Inl (MissingColumns (required - set (columns cat)))) \<and>
           (required \<subseteq> set (columns cat) \<longrightarrow> (\<exists>data. load_data data_dir = Inr data))"
proof -
  obtain cat where c: "pd_concat (map tagged files) = Inr cat"
    and cols: "set (columns cat) = insert (str ''source_file'') (file_columns files)"
    using file_columns_concat[OF assms(2)] by blast
  have sub: "required \<subseteq> set (columns cat) \<longleftrightarrow> required \<subseteq> file_columns files"
    using cols sf_distinct(4) by auto
  have diff: "required - set (columns cat) = required - file_columns files"
    using cols sf_distinct(4) by auto
  have 1: "\<not> required \<subseteq> set (columns cat) \<longrightarrow>
              load_data data_dir = Inl (MissingColumns (required - set (columns cat)))"
    unfolding sub diff by (simp add: load_data_files[OF assms])
  have 2: "required \<subseteq> set (columns cat) \<longrightarrow> (\<exists>data. load_data data_dir = Inr data)"
    unfolding sub by (simp add: load_data_files[OF assms])
  from c cols 1 2 show ?thesis by blast
qed

text \<open>
  A single file without \<^verbatim>\<open>meaning\<close> and \<^verbatim>\<open>ipa\<close>: the error names the
  two. The same file beside one with the five columns: the extra column
  \<^verbatim>\<open>note\<close> does no harm.
\<close>

theorem load_data_missing_columns_witness:
  "load_data [(str ''heteronyms_a.csv'', Inr short_table)] = Inl (MissingColumns {str ''meaning'', str ''ipa''}) \<and>
   (\<exists>data. load_data [(str ''heteronyms_en.csv'', Inr en_table), (str ''heteronyms_a.csv'', Inr short_table)] = Inr data)"
proof -
  define d1 :: directory where "d1 = [(str ''heteronyms_a.csv'', Inr short_table)]"
  define fs1 where "fs1 = [(str ''heteronyms_a.csv'', short_table)]"
  define d2 :: directory where "d2 = [(str ''heteronyms_en.csv'', Inr en_table), (str ''heteronyms_a.csv'', Inr short_table)]"
  define fs2 where "fs2 = [(str ''heteronyms_a.csv'', short_table), (str ''heteronyms_en.csv'', en_table)]"
  have p1: "paths d1 = as_files fs1"
    by (simp add: d1_def fs1_def paths_def glob_def glob_match_def as_files_def str_def)
  have p2: "paths d2 = as_files fs2"
    by (simp add: d2_def fs2_def paths_def glob_def glob_match_def as_files_def str_def)
  have ne: "fs1 \<noteq> []" "fs2 \<noteq> []" by (simp_all add: fs1_def fs2_def)
  have f1: "required - insert (str ''source_file'') (file_columns fs1) = {str ''meaning'', str ''ipa''}"
    by (auto simp: fs1_def file_columns_def short_table_def required_def)
  have s2: "required \<subseteq> insert (str ''source_file'') (file_columns fs2)"
    by (simp add: fs2_def file_columns_def en_table_def five_columns_def required_def)
  from load_data_missing_columns[OF p1 ne(1)]
  have "load_data d1 = Inl (MissingColumns {str ''meaning'', str ''ipa''})"
  proof (elim exE conjE)
    fix cat
    assume c: "set (columns cat) = insert (str ''source_file'') (file_columns fs1)"
      and m: "\<not> required \<subseteq> set (columns cat) \<longrightarrow>
              load_data d1 = Inl (MissingColumns (required - set (columns cat)))"
    have d: "required - set (columns cat) = {str ''meaning'', str ''ipa''}" unfolding c by (rule f1)
    then have "\<not> required \<subseteq> set (columns cat)" by auto
    with m d show ?thesis by simp
  qed
  moreover from load_data_missing_columns[OF p2 ne(2)]
  have "\<exists>data. load_data d2 = Inr data"
  proof (elim exE conjE)
    fix cat
    assume c: "set (columns cat) = insert (str ''source_file'') (file_columns fs2)"
      and m: "required \<subseteq> set (columns cat) \<longrightarrow> (\<exists>data. load_data d2 = Inr data)"
    from s2 have "required \<subseteq> set (columns cat)" unfolding c .
    with m show ?thesis by simp
  qed
  ultimately show ?thesis unfolding d1_def d2_def by (rule conjI)
qed





section \<open>Sorting by a comparison\<close>

lemma mset_insort_by: "mset (insort_by le x xs) = add_mset x (mset xs)"
  by (induction xs) auto

lemma mset_sort_by: "mset (sort_by le xs) = mset xs"
  unfolding sort_by_def by (induction xs) (auto simp: mset_insort_by)

lemma set_sort_by: "set (sort_by le xs) = set xs"
  using mset_sort_by [of le xs] by (metis set_mset_mset)

lemma length_sort_by: "length (sort_by le xs) = length xs"
  using mset_sort_by [of le xs] by (metis size_mset)

lemma set_insort_by: "set (insort_by le x xs) = insert x (set xs)"
  using mset_insort_by [of le x xs] by (metis set_mset_mset set_mset_add_mset_insert)

lemma sorted_wrt_insort_by:
  assumes total: "\<And>a b. le a b \<or> le b a"
    and trans: "\<And>a b c. le a b \<Longrightarrow> le b c \<Longrightarrow> le a c"
  shows "sorted_wrt le xs \<Longrightarrow> sorted_wrt le (insort_by le x xs)"
proof (induction xs)
  case Nil
  show ?case by simp
next
  case (Cons y ys)
  show ?case
  proof (cases "le x y")
    case True
    have "\<forall>z\<in>set ys. le x z"
    proof
      fix z assume "z \<in> set ys"
      with Cons.prems have "le y z" by simp
      with True show "le x z" by (rule trans)
    qed
    with True Cons.prems show ?thesis by simp
  next
    case False
    with total have yx: "le y x" by blast
    from Cons.prems have "sorted_wrt le ys" and all: "\<forall>z\<in>set ys. le y z" by simp_all
    then have "sorted_wrt le (insort_by le x ys)" using Cons.IH by simp
    moreover from yx all have "\<forall>z\<in>set (insort_by le x ys). le y z"
      by (simp add: set_insort_by)
    ultimately show ?thesis using False by simp
  qed
qed

lemma sorted_wrt_sort_by:
  assumes total: "\<And>a b. le a b \<or> le b a"
    and trans: "\<And>a b c. le a b \<Longrightarrow> le b c \<Longrightarrow> le a c"
  shows "sorted_wrt le (sort_by le xs)"
proof (induction xs)
  case Nil
  show ?case by (simp add: sort_by_def)
next
  case (Cons x xs)
  have "sort_by le (x # xs) = insort_by le x (sort_by le xs)" by (simp add: sort_by_def)
  with Cons sorted_wrt_insort_by[of le, OF total trans] show ?case by simp
qed

lemma cell_less_simps [simp]:
  "Str a < Str b \<longleftrightarrow> a < b" "Num i < Num j \<longleftrightarrow> i < j" "Num i < Str a" "\<not> Str a < Num i"
  "Str a < NaN" "Num i < NaN"
  by (simp_all add: less_cell_def)

lemma cell_not_less_NaN [simp]: "\<not> NaN < x"
  by (cases x) (simp_all add: less_cell_def)

lemma cell_le_simps [simp]:
  "Str a \<le> Str b \<longleftrightarrow> a \<le> b" "Num i \<le> Num j \<longleftrightarrow> i \<le> j" "Num i \<le> Str a" "\<not> Str a \<le> Num i"
  "\<not> NaN \<le> Str a" "\<not> NaN \<le> Num i"
  by (auto simp: less_eq_cell_def)

lemma cell_le_NaN [simp]: "x \<le> NaN"
  by (cases x) (simp_all add: less_eq_cell_def)

lemma before_iff:
  "before asc x y \<longleftrightarrow> x \<noteq> NaN \<and> (y = NaN \<or> (if asc then x < y else y < x))"
  by (cases x; cases y; simp)

lemma before_irrefl: "\<not> before asc x x"
  by (simp add: before_iff)

lemma before_trans: "before asc x y \<Longrightarrow> before asc y z \<Longrightarrow> before asc x z"
  unfolding before_iff by (cases asc) auto

lemma before_total: "x = y \<or> before asc x y \<or> before asc y x"
proof (cases "x = NaN \<or> y = NaN")
  case True
  then show ?thesis by (auto simp: before_iff)
next
  case False
  then have "x = y \<or> x < y \<or> y < x" by auto
  with False show ?thesis by (cases asc) (auto simp: before_iff)
qed

lemma row_le_total: "row_le by a b \<or> row_le by b a"
proof (induction "by")
  case Nil
  show ?case by simp
next
  case (Cons k ks)
  obtain c asc where k: "k = (c, asc)" by (cases k)
  from before_total[of "a c" "b c" asc] Cons show ?case unfolding k by auto
qed

lemma row_le_trans: "row_le by a b \<Longrightarrow> row_le by b c \<Longrightarrow> row_le by a c"
proof (induction "by")
  case Nil
  show ?case by simp
next
  case (Cons k ks)
  obtain col asc where k: "k = (col, asc)" by (cases k)
  from Cons.prems show ?case unfolding k
    using Cons.IH before_trans[of asc "a col" "b col" "c col"] by auto
qed

lemma sorted_sort_values: "sorted_wrt (row_le by) (sort_by (row_le by) rs)"
  by (rule sorted_wrt_sort_by) (rule row_le_total, rule row_le_trans)

lemma before_values:
  "x \<noteq> NaN \<Longrightarrow> y \<noteq> NaN \<Longrightarrow> before True x y \<longleftrightarrow> x < y"
  "x \<noteq> NaN \<Longrightarrow> y \<noteq> NaN \<Longrightarrow> before False x y \<longleftrightarrow> y < x"
  by (simp_all add: before_iff)

section \<open>Grouping and counting\<close>

lemma missing_label_None: "missing_label df cs = None \<longleftrightarrow> set cs \<subseteq> set (columns df)"
proof -
  have "missing_label df cs = None \<longleftrightarrow> filter (\<lambda>c. c \<notin> set (columns df)) cs = []"
    by (simp add: missing_label_def split: list.splits)
  also have "\<dots> \<longleftrightarrow> set cs \<subseteq> set (columns df)"
    by (auto simp: filter_empty_conv)
  finally show ?thesis .
qed

lemma missing_label_Some: "missing_label df cs = Some c \<Longrightarrow> c \<in> set cs \<and> c \<notin> set (columns df)"
proof -
  assume "missing_label df cs = Some c"
  then obtain rest where "filter (\<lambda>c. c \<notin> set (columns df)) cs = c # rest"
    by (auto simp: missing_label_def split: list.splits)
  then have "c \<in> set (filter (\<lambda>c. c \<notin> set (columns df)) cs)" by simp
  then show ?thesis by simp
qed

lemma nunique_card: "nunique vs = card (set vs - {NaN})"
proof -
  have "set (filter (\<lambda>v. \<not> isna v) vs) = set vs - {NaN}" by (auto simp: isna_def)
  then show ?thesis unfolding nunique_def by (metis length_remdups_card_conv)
qed

lemma set_group_keys:
  "set (group_keys by df) = {k. NaN \<notin> set k \<and> (\<exists>r\<in>set (rows df). k = map r by)}"
  by (auto simp: group_keys_def)

lemma distinct_group_keys: "distinct (group_keys by df)"
  by (simp add: group_keys_def)

lemma group_keys_pair:
  assumes "k \<in> set (group_keys [a, b] df)"
  obtains r where "r \<in> set (rows df)" "k = [r a, r b]" "r a \<noteq> NaN" "r b \<noteq> NaN"
  using assms unfolding set_group_keys by auto

lemma set_group_rows: "set (group_rows by df k) = {r \<in> set (rows df). map r by = k}"
  by (auto simp: group_rows_def)

lemma groupby_nunique_ok:
  assumes "set (by @ map snd aggs) \<subseteq> set (columns df)"
  shows "groupby_nunique by aggs df =
           Inr \<lparr>columns = by @ map fst aggs, rows = map (agg_row by aggs df) (group_keys by df)\<rparr>"
  using assms missing_label_None[of df "by @ map snd aggs"] by (simp add: groupby_nunique_def)

lemma groupby_nunique_error:
  assumes "\<not> set (by @ map snd aggs) \<subseteq> set (columns df)"
  shows "\<exists>c. groupby_nunique by aggs df = Inl (KeyError c)"
proof -
  from assms missing_label_None[of df "by @ map snd aggs"]
  obtain c where "missing_label df (by @ map snd aggs) = Some c" by (cases "missing_label df (by @ map snd aggs)") auto
  then show ?thesis by (simp add: groupby_nunique_def)
qed

text \<open>The cells of a row of the variant-count table.\<close>

lemma count_names_distinct:
  "str ''language'' \<noteq> str ''n_variants''" "str ''language'' \<noteq> str ''n_senses''"
  "str ''word'' \<noteq> str ''n_variants''" "str ''word'' \<noteq> str ''n_senses''"
  "str ''n_variants'' \<noteq> str ''n_senses''"
  by simp_all

lemma agg_row_counts:
  "agg_row by_word counts_aggs df [l, w] (str ''language'') = l"
  "agg_row by_word counts_aggs df [l, w] (str ''word'') = w"
  "agg_row by_word counts_aggs df [l, w] (str ''n_variants'') =
     Num (int (card ((\<lambda>r. r (str ''ipa'')) ` {r \<in> set (rows df). r (str ''language'') = l \<and> r (str ''word'') = w} - {NaN})))"
  "agg_row by_word counts_aggs df [l, w] (str ''n_senses'') =
     Num (int (card ((\<lambda>r. r (str ''sense_id'')) ` {r \<in> set (rows df). r (str ''language'') = l \<and> r (str ''word'') = w} - {NaN})))"
  by (simp_all add: agg_row_def row_of_def nunique_card set_group_rows)

lemma agg_row_words:
  "agg_row by_word words_aggs df [l, w] (str ''language'') = l"
  "agg_row by_word words_aggs df [l, w] (str ''word'') = w"
  "agg_row by_word words_aggs df [l, w] (str ''n_variants'') =
     Num (int (card ((\<lambda>r. r (str ''ipa'')) ` {r \<in> set (rows df). r (str ''language'') = l \<and> r (str ''word'') = w} - {NaN})))"
  by (simp_all add: agg_row_def row_of_def nunique_card set_group_rows)

lemma sel_map: "c \<in> set cs \<Longrightarrow> sel cs (map r cs) c = r c"
  by (simp add: sel_def map_of_zip_map)

lemma map_sel: "set ks \<subseteq> set cs \<Longrightarrow> map (sel cs (map r cs)) ks = map r ks"
  by (auto simp: sel_map)

lemma image_via_cells:
  assumes "set ks \<subseteq> set cs"
  shows "(\<lambda>r. map r ks) ` set (rows d) = (\<lambda>v. map (sel cs v) ks) ` set (cells cs d)"
proof -
  have "(\<lambda>v. map (sel cs v) ks) ` set (cells cs d) = (\<lambda>r. map (sel cs (map r cs)) ks) ` set (rows d)"
    by (simp add: cells_def image_image)
  also have "\<dots> = (\<lambda>r. map r ks) ` set (rows d)"
    using assms by (simp add: map_sel)
  finally show ?thesis by simp
qed

lemma group_keys_cong:
  assumes "set (cells cs d') = set (cells cs d)" and "set by \<subseteq> set cs"
  shows "group_keys by d' = group_keys by d"
proof -
  have "(\<lambda>r. map r by) ` set (rows d') = (\<lambda>r. map r by) ` set (rows d)"
    unfolding image_via_cells[OF assms(2)] assms(1) ..
  then have "set (filter (\<lambda>k. NaN \<notin> set k) (map (\<lambda>r. map r by) (rows d'))) =
             set (filter (\<lambda>k. NaN \<notin> set k) (map (\<lambda>r. map r by) (rows d)))"
    by auto
  then have "sorted_list_of_set (set (filter (\<lambda>k. NaN \<notin> set k) (map (\<lambda>r. map r by) (rows d')))) =
             sorted_list_of_set (set (filter (\<lambda>k. NaN \<notin> set k) (map (\<lambda>r. map r by) (rows d))))"
    by simp
  then show ?thesis unfolding group_keys_def sorted_list_of_set_sort_remdups .
qed

lemma group_values_cong:
  assumes "set (cells cs d') = set (cells cs d)" and "set by \<subseteq> set cs" and "src \<in> set cs"
  shows "(\<lambda>r. r src) ` {r \<in> set (rows d'). map r by = k} = (\<lambda>r. r src) ` {r \<in> set (rows d). map r by = k}"
proof -
  have via: "\<And>x. (\<lambda>r. r src) ` {r \<in> set (rows x). map r by = k} =
      (\<lambda>v. sel cs v src) ` {v \<in> set (cells cs x). map (sel cs v) by = k}"
  proof -
    fix x :: dataframe
    have "(\<lambda>v. sel cs v src) ` {v \<in> set (cells cs x). map (sel cs v) by = k} =
          (\<lambda>r. sel cs (map r cs) src) ` {r \<in> set (rows x). map (sel cs (map r cs)) by = k}"
      by (auto simp: cells_def)
    also have "\<dots> = (\<lambda>r. r src) ` {r \<in> set (rows x). map r by = k}"
      using assms(2,3) by (simp add: map_sel sel_map)
    finally show "(\<lambda>r. r src) ` {r \<in> set (rows x). map r by = k} =
      (\<lambda>v. sel cs v src) ` {v \<in> set (cells cs x). map (sel cs v) by = k}" by simp
  qed
  show ?thesis unfolding via assms(1) ..
qed

lemma agg_row_cong:
  assumes "set (cells cs d') = set (cells cs d)" and "set by \<subseteq> set cs" and "snd ` set aggs \<subseteq> set cs"
  shows "agg_row by aggs d' k = agg_row by aggs d k"
proof -
  have "\<And>a. a \<in> set aggs \<Longrightarrow>
      nunique (map (\<lambda>r. r (snd a)) (group_rows by d' k)) = nunique (map (\<lambda>r. r (snd a)) (group_rows by d k))"
  proof -
    fix a assume "a \<in> set aggs"
    with assms(3) have "snd a \<in> set cs" by auto
    from group_values_cong[OF assms(1,2) this]
    show "nunique (map (\<lambda>r. r (snd a)) (group_rows by d' k)) = nunique (map (\<lambda>r. r (snd a)) (group_rows by d k))"
      by (simp add: nunique_card set_group_rows)
  qed
  then have m: "map (\<lambda>a. (fst a, Num (int (nunique (map (\<lambda>r. r (snd a)) (group_rows by d' k)))))) aggs =
             map (\<lambda>a. (fst a, Num (int (nunique (map (\<lambda>r. r (snd a)) (group_rows by d k)))))) aggs"
    by (intro map_cong) simp_all
  show ?thesis unfolding agg_row_def m ..
qed

lemma groupby_nunique_cong:
  assumes "columns d' = columns d" and "set (cells (columns d) d') = set (cells (columns d) d)"
  shows "groupby_nunique by aggs d' = groupby_nunique by aggs d"
proof (cases "set (by @ map snd aggs) \<subseteq> set (columns d)")
  case True
  then have b: "set by \<subseteq> set (columns d)" and a: "snd ` set aggs \<subseteq> set (columns d)" by auto
  have "map (agg_row by aggs d') (group_keys by d') = map (agg_row by aggs d) (group_keys by d)"
    unfolding group_keys_cong[OF assms(2) b] using agg_row_cong[OF assms(2) b a] by simp
  then show ?thesis
    using True assms(1) by (simp add: groupby_nunique_ok)
next
  case False
  have ml: "missing_label d' (by @ map snd aggs) = missing_label d (by @ map snd aggs)"
    by (simp add: missing_label_def assms(1))
  from False missing_label_None[of d "by @ map snd aggs"]
  obtain c where "missing_label d (by @ map snd aggs) = Some c"
    by (cases "missing_label d (by @ map snd aggs)") auto
  with ml show ?thesis by (simp add: groupby_nunique_def)
qed

section \<open>Loaded tables\<close>

lemma load_data_Inr:
  assumes "load_data d = Inr data"
  obtains files where "paths d = as_files files" "files \<noteq> []" "required \<subseteq> file_columns files"
    "data = \<lparr>columns = uniq (concat (map columns (map tagged files))),
             rows = concat (map (\<lambda>f. map (loaded_row f) (rows (snd f))) files)\<rparr>"
proof (cases "read_all (paths d)")
  case (Inl e)
  then have "load_data d = Inl e" unfolding load_data_def by simp
  with assms show ?thesis by simp
next
  case (Inr dfs)
  then obtain files where p: "paths d = as_files files" using read_all_Inr by blast
  have ne: "files \<noteq> []"
  proof
    assume "files = []"
    with p have "paths d = []" by (simp add: as_files_def)
    then have "load_data d = Inl NoInput" by (simp add: load_data_NoInput_iff paths_Nil_iff)
    with assms show False by simp
  qed
  have sub: "required \<subseteq> file_columns files"
  proof (rule ccontr)
    assume "\<not> required \<subseteq> file_columns files"
    then have "load_data d = Inl (MissingColumns (required - file_columns files))"
      by (simp add: load_data_files[OF p ne])
    with assms show False by simp
  qed
  have "data = \<lparr>columns = uniq (concat (map columns (map tagged files))),
             rows = concat (map (\<lambda>f. map (loaded_row f) (rows (snd f))) files)\<rparr>"
    using assms sub by (simp add: load_data_files[OF p ne])
  with p ne sub show ?thesis by (rule that)
qed

lemma loaded_columns:
  assumes "load_data d = Inr data"
  shows "required \<subseteq> set (columns data)"
proof -
  from assms obtain files where ne: "files \<noteq> []" and sub: "required \<subseteq> file_columns files"
    and data: "data = \<lparr>columns = uniq (concat (map columns (map tagged files))),
             rows = concat (map (\<lambda>f. map (loaded_row f) (rows (snd f))) files)\<rparr>"
    by (rule load_data_Inr)
  have "set (columns data) = (\<Union>f\<in>set files. set (columns (tagged f)))"
    unfolding data by simp
  also have "\<dots> = insert (str ''source_file'') (file_columns files)"
    using ne by (cases files) (auto simp: columns_tagged file_columns_def)
  finally show ?thesis using sub by auto
qed

lemma loaded_cells:
  assumes "load_data d = Inr data" and "r \<in> set (rows data)"
    and "c \<in> {str ''language'', str ''word'', str ''ipa''}"
  shows "\<exists>s. r c = Str (strip s)"
proof -
  from assms(1) obtain files where
    data: "data = \<lparr>columns = uniq (concat (map columns (map tagged files))),
             rows = concat (map (\<lambda>f. map (loaded_row f) (rows (snd f))) files)\<rparr>"
    by (rule load_data_Inr)
  from assms(2) obtain f r0 where "r = loaded_row f r0"
    unfolding data by auto
  then have "r c = norm_cell (reindex (columns (snd f)) r0 c)"
    using loaded_row_cells(2)[OF assms(3)] by simp
  then show ?thesis using norm_cell_Str by simp
qed

lemma loaded_not_missing:
  assumes "load_data d = Inr data" and "r \<in> set (rows data)"
  shows "r (str ''language'') \<noteq> NaN" "r (str ''word'') \<noteq> NaN" "r (str ''ipa'') \<noteq> NaN"
    "is_Str (r (str ''language''))" "is_Str (r (str ''word''))" "is_Str (r (str ''ipa''))"
  using loaded_cells[OF assms, of "str ''language''"] loaded_cells[OF assms, of "str ''word''"]
    loaded_cells[OF assms, of "str ''ipa''"] by auto

lemma loaded_has:
  assumes "load_data d = Inr data"
  shows "str ''language'' \<in> set (columns data)" "str ''word'' \<in> set (columns data)"
    "str ''sense_id'' \<in> set (columns data)" "str ''meaning'' \<in> set (columns data)"
    "str ''ipa'' \<in> set (columns data)"
  using loaded_columns[OF assms] by (auto simp: required_def)

section \<open>The variant-count table\<close>

lemma variant_counts_ok:
  assumes "set (by_word @ map snd counts_aggs) \<subseteq> set (columns data)"
  shows "variant_counts data =
     Inr \<lparr>columns = by_word @ map fst counts_aggs,
          rows = sort_by (row_le counts_order) (map (agg_row by_word counts_aggs data) (group_keys by_word data))\<rparr>"
proof -
  have "missing_label \<lparr>columns = by_word @ map fst counts_aggs,
            rows = map (agg_row by_word counts_aggs data) (group_keys by_word data)\<rparr> (map fst counts_order) = None"
    unfolding missing_label_None by simp
  then show ?thesis
    unfolding variant_counts_def groupby_nunique_ok[OF assms] bind_err_def sort_values_def by simp
qed

lemma variant_counts_Inr:
  assumes "variant_counts data = Inr counts"
  shows "set (by_word @ map snd counts_aggs) \<subseteq> set (columns data)"
proof (rule ccontr)
  assume "\<not> set (by_word @ map snd counts_aggs) \<subseteq> set (columns data)"
  from groupby_nunique_error[OF this] obtain c where
    "groupby_nunique by_word counts_aggs data = Inl (KeyError c)" by blast
  then have "variant_counts data = Inl (KeyError c)" by (simp add: variant_counts_def bind_err_def)
  with assms show False by simp
qed

lemma keys_of_agg_rows:
  "map (\<lambda>r. map r by_word) (map (agg_row by_word aggs data) (group_keys by_word data)) = group_keys by_word data"
proof -
  have "\<And>k. k \<in> set (group_keys by_word data) \<Longrightarrow> map (agg_row by_word aggs data k) by_word = k"
  proof -
    fix k assume "k \<in> set (group_keys by_word data)"
    then obtain r where "k = [r (str ''language''), r (str ''word'')]" by (rule group_keys_pair)
    then show "map (agg_row by_word aggs data k) by_word = k"
      by (simp add: agg_row_def row_of_def)
  qed
  then show ?thesis by (simp add: comp_def map_idI)
qed

lemma sorted_wrt_distinct_key:
  "sorted_wrt P xs \<Longrightarrow> distinct (map f xs) \<Longrightarrow> sorted_wrt (\<lambda>a b. P a b \<and> f a \<noteq> f b) xs"
  by (induction xs) auto

lemma cells_sort_by:
  "mset (map f (sort_by le xs)) = mset (map f xs)"
  by (simp add: mset_sort_by)

lemma counts_row_cells:
  assumes "a \<in> set (map (agg_row by_word counts_aggs data) (group_keys by_word data))"
  shows "a (str ''language'') \<noteq> NaN" "a (str ''word'') \<noteq> NaN"
    "a (str ''n_variants'') =
       Num (int (card ((\<lambda>r. r (str ''ipa'')) ` {r \<in> set (rows data).
          r (str ''language'') = a (str ''language'') \<and> r (str ''word'') = a (str ''word'')} - {NaN})))"
    "a (str ''n_senses'') =
       Num (int (card ((\<lambda>r. r (str ''sense_id'')) ` {r \<in> set (rows data).
          r (str ''language'') = a (str ''language'') \<and> r (str ''word'') = a (str ''word'')} - {NaN})))"
proof -
  from assms obtain k where k: "k \<in> set (group_keys by_word data)" and a: "a = agg_row by_word counts_aggs data k"
    by auto
  from k obtain r where kr: "k = [r (str ''language''), r (str ''word'')]"
    and nn: "r (str ''language'') \<noteq> NaN" "r (str ''word'') \<noteq> NaN"
    by (rule group_keys_pair)
  show "a (str ''language'') \<noteq> NaN" "a (str ''word'') \<noteq> NaN"
    unfolding a kr using nn by (simp_all add: agg_row_counts)
  show "a (str ''n_variants'') =
       Num (int (card ((\<lambda>r. r (str ''ipa'')) ` {r \<in> set (rows data).
          r (str ''language'') = a (str ''language'') \<and> r (str ''word'') = a (str ''word'')} - {NaN})))"
    unfolding a kr by (simp add: agg_row_counts)
  show "a (str ''n_senses'') =
       Num (int (card ((\<lambda>r. r (str ''sense_id'')) ` {r \<in> set (rows data).
          r (str ''language'') = a (str ''language'') \<and> r (str ''word'') = a (str ''word'')} - {NaN})))"
    unfolding a kr by (simp add: agg_row_counts)
qed

text \<open>
  Claim C3. In the table \<^verbatim>\<open>counts\<close> of \<^verbatim>\<open>plot_variant_counts\<close>, the row of a
  group holds as \<^verbatim>\<open>n_variants\<close> the number of distinct values (missing cells are no
  values) of \<^verbatim>\<open>ipa\<close> among the rows of the group, and as \<^verbatim>\<open>n_senses\<close> the
  number of distinct values of \<^verbatim>\<open>sense_id\<close>. A table with the same columns that
  holds the same rows, any number of times each, gives the same \<^verbatim>\<open>counts\<close>:
  duplicate rows change no count.
\<close>

theorem variant_counts_nunique:
  assumes "variant_counts data = Inr counts"
  shows "(\<forall>a\<in>set (rows counts).
           a (str ''n_variants'') =
             Num (int (card ((\<lambda>r. r (str ''ipa'')) ` {r \<in> set (rows data).
               r (str ''language'') = a (str ''language'') \<and> r (str ''word'') = a (str ''word'')} - {NaN}))) \<and>
           a (str ''n_senses'') =
             Num (int (card ((\<lambda>r. r (str ''sense_id'')) ` {r \<in> set (rows data).
               r (str ''language'') = a (str ''language'') \<and> r (str ''word'') = a (str ''word'')} - {NaN})))) \<and>
         (\<forall>data'. columns data' = columns data \<and>
                  set (cells (columns data) data') = set (cells (columns data) data) \<longrightarrow>
                  variant_counts data' = Inr counts)"
proof (intro conjI ballI allI impI)
  have cols: "set (by_word @ map snd counts_aggs) \<subseteq> set (columns data)"
    using assms by (rule variant_counts_Inr)
  have rws: "set (rows counts) = set (map (agg_row by_word counts_aggs data) (group_keys by_word data))"
    using assms unfolding variant_counts_ok[OF cols] by (auto simp: set_sort_by)
  {
    fix a assume "a \<in> set (rows counts)"
    then have a: "a \<in> set (map (agg_row by_word counts_aggs data) (group_keys by_word data))"
      unfolding rws .
    show "a (str ''n_variants'') =
             Num (int (card ((\<lambda>r. r (str ''ipa'')) ` {r \<in> set (rows data).
               r (str ''language'') = a (str ''language'') \<and> r (str ''word'') = a (str ''word'')} - {NaN})))"
      by (rule counts_row_cells(3)[OF a])
    show "a (str ''n_senses'') =
             Num (int (card ((\<lambda>r. r (str ''sense_id'')) ` {r \<in> set (rows data).
               r (str ''language'') = a (str ''language'') \<and> r (str ''word'') = a (str ''word'')} - {NaN})))"
      by (rule counts_row_cells(4)[OF a])
  }
  {
    fix data'
    assume "columns data' = columns data \<and>
            set (cells (columns data) data') = set (cells (columns data) data)"
    then have c1: "columns data' = columns data"
      and c2: "set (cells (columns data) data') = set (cells (columns data) data)" by simp_all
    have "groupby_nunique by_word counts_aggs data' = groupby_nunique by_word counts_aggs data"
      by (rule groupby_nunique_cong[OF c1 c2])
    then have "variant_counts data' = variant_counts data"
      by (simp add: variant_counts_def)
    with assms show "variant_counts data' = Inr counts" by simp
  }
qed

text \<open>
  Claim C1. For a loaded table, the table \<^verbatim>\<open>counts\<close> of
  \<^verbatim>\<open>plot_variant_counts\<close> has exactly one row for every pair of language and word
  that occurs in the table, none left out, and its rows are in the order: language
  ascending, then variant count descending, then sense count descending, then word
  ascending.
\<close>

theorem variant_counts_all_groups_sorted:
  assumes "load_data data_dir = Inr data"
  shows "\<exists>counts. variant_counts data = Inr counts \<and>
     distinct (cells by_word counts) \<and>
     set (cells by_word counts) = set (cells by_word data) \<and>
     sorted_wrt (\<lambda>a b.
        a (str ''language'') < b (str ''language'') \<or>
        (a (str ''language'') = b (str ''language'') \<and>
          (b (str ''n_variants'') < a (str ''n_variants'') \<or>
           (a (str ''n_variants'') = b (str ''n_variants'') \<and>
             (b (str ''n_senses'') < a (str ''n_senses'') \<or>
              (a (str ''n_senses'') = b (str ''n_senses'') \<and>
                a (str ''word'') < b (str ''word''))))))) (rows counts)"
proof -
  define g where "g = agg_row by_word counts_aggs data"
  define keys where "keys = group_keys by_word data"
  define counts where "counts = \<lparr>columns = by_word @ map fst counts_aggs,
          rows = sort_by (row_le counts_order) (map g keys)\<rparr>"
  have cols: "set (by_word @ map snd counts_aggs) \<subseteq> set (columns data)"
    using loaded_has[OF assms] by simp
  have vc: "variant_counts data = Inr counts"
    unfolding counts_def g_def keys_def by (rule variant_counts_ok[OF cols])
  have rws: "rows counts = sort_by (row_le counts_order) (map g keys)" by (simp add: counts_def)
  have ms: "mset (cells by_word counts) = mset keys"
    unfolding cells_def rws cells_sort_by unfolding g_def keys_def keys_of_agg_rows ..
  have d: "distinct (cells by_word counts)"
    using ms distinct_group_keys[of by_word data] unfolding keys_def
    by (metis mset_eq_imp_distinct_iff)
  have "set keys = set (cells by_word data)"
  proof -
    have "\<And>r. r \<in> set (rows data) \<Longrightarrow> NaN \<notin> set (map r by_word)"
      using loaded_not_missing(1,2)[OF assms, symmetric] by auto
    then show ?thesis unfolding keys_def set_group_keys cells_def by auto
  qed
  then have s: "set (cells by_word counts) = set (cells by_word data)"
    using ms by (metis mset_eq_setD)
  have in_rows: "\<And>a. a \<in> set (rows counts) \<Longrightarrow> a \<in> set (map g keys)"
    unfolding rws by (simp add: set_sort_by)
  have "sorted_wrt (row_le counts_order) (rows counts)"
    unfolding rws by (rule sorted_sort_values)
  moreover have "distinct (map (\<lambda>r. map r by_word) (rows counts))"
    using d by (simp add: cells_def)
  ultimately have "sorted_wrt (\<lambda>a b. row_le counts_order a b \<and> map a by_word \<noteq> map b by_word) (rows counts)"
    by (rule sorted_wrt_distinct_key)
  then have o: "sorted_wrt (\<lambda>a b.
        a (str ''language'') < b (str ''language'') \<or>
        (a (str ''language'') = b (str ''language'') \<and>
          (b (str ''n_variants'') < a (str ''n_variants'') \<or>
           (a (str ''n_variants'') = b (str ''n_variants'') \<and>
             (b (str ''n_senses'') < a (str ''n_senses'') \<or>
              (a (str ''n_senses'') = b (str ''n_senses'') \<and>
                a (str ''word'') < b (str ''word''))))))) (rows counts)"
  proof (rule sorted_wrt_mono_rel[rotated])
    fix a b
    assume "a \<in> set (rows counts)" "b \<in> set (rows counts)"
      and le: "row_le counts_order a b \<and> map a by_word \<noteq> map b by_word"
    then have a: "a \<in> set (map (agg_row by_word counts_aggs data) (group_keys by_word data))"
      and b: "b \<in> set (map (agg_row by_word counts_aggs data) (group_keys by_word data))"
      using in_rows unfolding g_def keys_def by blast+
    have nn: "a (str ''language'') \<noteq> NaN" "a (str ''word'') \<noteq> NaN"
      "b (str ''language'') \<noteq> NaN" "b (str ''word'') \<noteq> NaN"
      "a (str ''n_variants'') \<noteq> NaN" "b (str ''n_variants'') \<noteq> NaN"
      "a (str ''n_senses'') \<noteq> NaN" "b (str ''n_senses'') \<noteq> NaN"
      using counts_row_cells[OF a] counts_row_cells[OF b] by simp_all
    from le show "a (str ''language'') < b (str ''language'') \<or>
        (a (str ''language'') = b (str ''language'') \<and>
          (b (str ''n_variants'') < a (str ''n_variants'') \<or>
           (a (str ''n_variants'') = b (str ''n_variants'') \<and>
             (b (str ''n_senses'') < a (str ''n_senses'') \<or>
              (a (str ''n_senses'') = b (str ''n_senses'') \<and>
                a (str ''word'') < b (str ''word''))))))"
      using nn by (auto simp: before_values)
  qed
  show ?thesis by (rule exI[of _ counts]) (intro conjI vc d s o)
qed

lemmas table_eval =
  bind_err_def groupby_nunique_def missing_label_def group_keys_def agg_row_def group_rows_def
  nunique_def isna_def sort_values_def sort_by_def row_of_def cells_def csv_row_def five_columns_def

text \<open>
  The scenario of the specification: one sense, two transcriptions; and a repeated row.
\<close>

theorem variant_counts_nunique_witness:
  "map_sum id (cells [str ''language'', str ''word'', str ''n_variants'', str ''n_senses''])
       (variant_counts one_sense) = Inr [[Str (str ''en''), Str (str ''bow''), Num 2, Num 1]] \<and>
   map_sum id (cells [str ''language'', str ''word'', str ''n_variants'', str ''n_senses''])
       (variant_counts one_sense_dup) = Inr [[Str (str ''en''), Str (str ''bow''), Num 2, Num 1]]"
proof -
  define counts where "counts = \<lparr>columns = by_word @ map fst counts_aggs,
      rows = sort_by (row_le counts_order)
               (map (agg_row by_word counts_aggs one_sense) (group_keys by_word one_sense))\<rparr>"
  have vc: "variant_counts one_sense = Inr counts"
    unfolding counts_def by (rule variant_counts_ok) (simp add: one_sense_def five_columns_def)
  have c: "cells [str ''language'', str ''word'', str ''n_variants'', str ''n_senses''] counts =
             [[Str (str ''en''), Str (str ''bow''), Num 2, Num 1]]"
    unfolding counts_def by (simp add: table_eval one_sense_def)
  have "columns one_sense_dup = columns one_sense \<and>
        set (cells (columns one_sense) one_sense_dup) = set (cells (columns one_sense) one_sense)"
    by (auto simp: one_sense_def one_sense_dup_def cells_def)
  with variant_counts_nunique[OF vc] have "variant_counts one_sense_dup = Inr counts" by blast
  with vc c show ?thesis by simp
qed

lemmas load_eval =
  loaded_row_def norm_row_def reindex_def tagged_def assign_scalar_def add_column_def
  norm_cell_def strip_def isspace_def

lemma paths_words_dir:
  "paths words_dir = as_files [(str ''heteronyms_en.csv'', words_table), (str ''heteronyms_sv.csv'', sv_table)]"
  by (simp add: words_dir_def paths_def glob_def glob_match_def as_files_def str_def)

lemma load_words_dir: "load_data words_dir = Inr words_loaded"
proof -
  have "required \<subseteq> file_columns [(str ''heteronyms_en.csv'', words_table), (str ''heteronyms_sv.csv'', sv_table)]"
    by (simp add: file_columns_def words_table_def five_columns_def required_def)
  then show ?thesis
    unfolding words_loaded_def by (simp add: load_data_files[OF paths_words_dir])
qed

lemma cells_words_loaded:
  "cells [str ''language'', str ''word'', str ''sense_id'', str ''ipa''] words_loaded =
    [[Str (str ''en''), Str (str ''cat''), Num 1, Str [107, 230, 116]],
     [Str (str ''en''), Str (str ''bow''), Num 1, Str [98, 111, 650]],
     [Str (str ''en''), Str (str ''tear''), Num 1, Str [116, 603, 114]],
     [Str (str ''en''), Str (str ''bow''), Num 1, Str [98, 97, 650]],
     [Str (str ''en''), Str (str ''tear''), Num 2, Str [116, 618, 114]],
     [Str (str ''sv''), Str (str ''banan''), Num 1, Str [98, 97, 110, 712, 593, 720, 110]]]"
  by (simp add: words_loaded_def cells_def words_table_def sv_table_def load_eval csv_row_def row_of_def
      five_columns_def str_def)

lemma variant_counts_words_loaded:
  "map_sum id (cells [str ''language'', str ''word'', str ''n_variants'', str ''n_senses''])
     (variant_counts words_loaded) =
   Inr [[Str (str ''en''), Str (str ''tear''), Num 2, Num 2],
        [Str (str ''en''), Str (str ''bow''), Num 2, Num 1],
        [Str (str ''en''), Str (str ''cat''), Num 1, Num 1],
        [Str (str ''sv''), Str (str ''banan''), Num 1, Num 1]]"
  by (simp add: variant_counts_def table_eval words_loaded_def words_table_def sv_table_def load_eval
      uniq_def str_def)


text \<open>
  The example directory: the English words come first, \<^verbatim>\<open>tear\<close> (two variants, two
  senses) before \<^verbatim>\<open>bow\<close> (two variants, one sense) before \<^verbatim>\<open>cat\<close>.
\<close>

theorem variant_counts_all_groups_sorted_witness:
  "load_data words_dir = Inr words_loaded \<and>
   map_sum id (cells [str ''language'', str ''word'', str ''n_variants'', str ''n_senses''])
     (variant_counts words_loaded) =
   Inr [[Str (str ''en''), Str (str ''tear''), Num 2, Num 2],
        [Str (str ''en''), Str (str ''bow''), Num 2, Num 1],
        [Str (str ''en''), Str (str ''cat''), Num 1, Num 1],
        [Str (str ''sv''), Str (str ''banan''), Num 1, Num 1]]"
proof -
  from variant_counts_all_groups_sorted[OF load_words_dir]
  obtain counts where "variant_counts words_loaded = Inr counts" by (elim exE conjE)
  then show ?thesis using load_words_dir variant_counts_words_loaded by simp
qed

section \<open>The selected words\<close>

lemma selected_words_ok:
  assumes "set (by_word @ map snd words_aggs) \<subseteq> set (columns data)"
  shows "selected_words data max_words =
     Inr (head max_words \<lparr>columns = by_word @ map fst words_aggs,
          rows = sort_by (row_le words_order) (map (agg_row by_word words_aggs data) (group_keys by_word data))\<rparr>)"
proof -
  have "missing_label \<lparr>columns = by_word @ map fst words_aggs,
            rows = map (agg_row by_word words_aggs data) (group_keys by_word data)\<rparr> (map fst words_order) = None"
    unfolding missing_label_None by simp
  then show ?thesis
    unfolding selected_words_def groupby_nunique_ok[OF assms] bind_err_def sort_values_def by simp
qed

lemma words_row_cells:
  assumes "a \<in> set (map (agg_row by_word words_aggs data) (group_keys by_word data))"
  shows "a (str ''language'') \<noteq> NaN" "a (str ''word'') \<noteq> NaN"
    "a (str ''n_variants'') =
       Num (int (card ((\<lambda>r. r (str ''ipa'')) ` {r \<in> set (rows data).
          r (str ''language'') = a (str ''language'') \<and> r (str ''word'') = a (str ''word'')} - {NaN})))"
proof -
  from assms obtain k where k: "k \<in> set (group_keys by_word data)" and a: "a = agg_row by_word words_aggs data k"
    by auto
  from k obtain r where kr: "k = [r (str ''language''), r (str ''word'')]"
    and nn: "r (str ''language'') \<noteq> NaN" "r (str ''word'') \<noteq> NaN"
    by (rule group_keys_pair)
  show "a (str ''language'') \<noteq> NaN" "a (str ''word'') \<noteq> NaN"
    unfolding a kr using nn by (simp_all add: agg_row_words)
  show "a (str ''n_variants'') =
       Num (int (card ((\<lambda>r. r (str ''ipa'')) ` {r \<in> set (rows data).
          r (str ''language'') = a (str ''language'') \<and> r (str ''word'') = a (str ''word'')} - {NaN})))"
    unfolding a kr by (simp add: agg_row_words)
qed

lemma loaded_group_keys:
  assumes "load_data d = Inr data"
  shows "set (group_keys by_word data) = set (cells by_word data)"
proof -
  have "\<And>r. r \<in> set (rows data) \<Longrightarrow> NaN \<notin> set (map r by_word)"
    using loaded_not_missing(1,2)[OF assms, symmetric] by auto
  then show ?thesis unfolding set_group_keys cells_def by auto
qed

text \<open>The groups in the order of \<^verbatim>\<open>plot_word_cards\<close>, before \<^verbatim>\<open>head\<close> cuts the list.\<close>

lemma ranked_words:
  assumes "load_data d = Inr data"
  defines "ranked \<equiv> sort_by (row_le words_order) (map (agg_row by_word words_aggs data) (group_keys by_word data))"
  shows "distinct (map (\<lambda>r. map r by_word) ranked)"
    and "set (map (\<lambda>r. map r by_word) ranked) = set (cells by_word data)"
    and "length ranked = card (set (cells by_word data))"
    and "sorted_wrt (\<lambda>a b.
          b (str ''n_variants'') < a (str ''n_variants'') \<or>
          (a (str ''n_variants'') = b (str ''n_variants'') \<and>
            (a (str ''language'') < b (str ''language'') \<or>
             (a (str ''language'') = b (str ''language'') \<and> a (str ''word'') < b (str ''word''))))) ranked"
    and "set ranked = set (map (agg_row by_word words_aggs data) (group_keys by_word data))"
proof -
  have ms: "mset (map (\<lambda>r. map r by_word) ranked) = mset (group_keys by_word data)"
    unfolding ranked_def cells_sort_by keys_of_agg_rows ..
  show d: "distinct (map (\<lambda>r. map r by_word) ranked)"
    using ms distinct_group_keys[of by_word data] by (metis mset_eq_imp_distinct_iff)
  show s: "set (map (\<lambda>r. map r by_word) ranked) = set (cells by_word data)"
    using ms loaded_group_keys[OF assms(1)] by (metis mset_eq_setD)
  have "length ranked = length (map (\<lambda>r. map r by_word) ranked)" by simp
  also have "\<dots> = card (set (map (\<lambda>r. map r by_word) ranked))"
    using d by (metis distinct_card)
  finally show "length ranked = card (set (cells by_word data))" unfolding s .
  show in_rows: "set ranked = set (map (agg_row by_word words_aggs data) (group_keys by_word data))"
    unfolding ranked_def by (rule set_sort_by)
  have "sorted_wrt (row_le words_order) ranked"
    unfolding ranked_def by (rule sorted_sort_values)
  then have "sorted_wrt (\<lambda>a b. row_le words_order a b \<and> map a by_word \<noteq> map b by_word) ranked"
    using d by (rule sorted_wrt_distinct_key)
  then show "sorted_wrt (\<lambda>a b.
          b (str ''n_variants'') < a (str ''n_variants'') \<or>
          (a (str ''n_variants'') = b (str ''n_variants'') \<and>
            (a (str ''language'') < b (str ''language'') \<or>
             (a (str ''language'') = b (str ''language'') \<and> a (str ''word'') < b (str ''word''))))) ranked"
  proof (rule sorted_wrt_mono_rel[rotated])
    fix a b
    assume "a \<in> set ranked" "b \<in> set ranked"
      and le: "row_le words_order a b \<and> map a by_word \<noteq> map b by_word"
    then have a: "a \<in> set (map (agg_row by_word words_aggs data) (group_keys by_word data))"
      and b: "b \<in> set (map (agg_row by_word words_aggs data) (group_keys by_word data))"
      unfolding in_rows by blast+
    have nn: "a (str ''language'') \<noteq> NaN" "a (str ''word'') \<noteq> NaN"
      "b (str ''language'') \<noteq> NaN" "b (str ''word'') \<noteq> NaN"
      "a (str ''n_variants'') \<noteq> NaN" "b (str ''n_variants'') \<noteq> NaN"
      using words_row_cells[OF a] words_row_cells[OF b] by simp_all
    from le show "b (str ''n_variants'') < a (str ''n_variants'') \<or>
          (a (str ''n_variants'') = b (str ''n_variants'') \<and>
            (a (str ''language'') < b (str ''language'') \<or>
             (a (str ''language'') = b (str ''language'') \<and> a (str ''word'') < b (str ''word''))))"
      using nn by (auto simp: before_values)
  qed
qed

text \<open>
  Claim C2, as amended. For a loaded table, take the groups (the pairs of language and word
  that occur in the table, each once, with the number of distinct transcriptions of the
  pair as \<^verbatim>\<open>n_variants\<close>) in the order: \<^verbatim>\<open>n_variants\<close> descending, then language
  ascending, then word ascending. \<^verbatim>\<open>plot_word_cards\<close> selects the first
  \<^verbatim>\<open>max_words\<close> of them when \<^verbatim>\<open>max_words\<close> is not negative, which are
  the minimum of \<^verbatim>\<open>max_words\<close> and the number of groups; when \<^verbatim>\<open>max_words\<close>
  is negative it selects all groups but the last \<^verbatim>\<open>-max_words\<close>.
\<close>

theorem selected_words_first_groups:
  assumes "load_data data_dir = Inr data"
  shows "\<exists>words ranked. selected_words data max_words = Inr words \<and>
     distinct (map (\<lambda>r. map r by_word) ranked) \<and>
     set (map (\<lambda>r. map r by_word) ranked) = set (cells by_word data) \<and>
     (\<forall>a\<in>set ranked. a (str ''n_variants'') =
        Num (int (card ((\<lambda>r. r (str ''ipa'')) ` {r \<in> set (rows data).
          r (str ''language'') = a (str ''language'') \<and> r (str ''word'') = a (str ''word'')})))) \<and>
     sorted_wrt (\<lambda>a b.
          b (str ''n_variants'') < a (str ''n_variants'') \<or>
          (a (str ''n_variants'') = b (str ''n_variants'') \<and>
            (a (str ''language'') < b (str ''language'') \<or>
             (a (str ''language'') = b (str ''language'') \<and> a (str ''word'') < b (str ''word''))))) ranked \<and>
     rows words = take (if 0 \<le> max_words then nat max_words else length ranked - nat (- max_words)) ranked \<and>
     (0 \<le> max_words \<longrightarrow>
        int (length (rows words)) = min max_words (int (card (set (cells by_word data))))) \<and>
     (max_words < 0 \<longrightarrow>
        int (length (rows words)) = max 0 (int (card (set (cells by_word data))) + max_words))"
proof -
  define ranked where "ranked = sort_by (row_le words_order) (map (agg_row by_word words_aggs data) (group_keys by_word data))"
  define words where "words = head max_words \<lparr>columns = by_word @ map fst words_aggs, rows = ranked\<rparr>"
  have cols: "set (by_word @ map snd words_aggs) \<subseteq> set (columns data)"
    using loaded_has[OF assms] by simp
  have sw: "selected_words data max_words = Inr words"
    unfolding words_def ranked_def by (rule selected_words_ok[OF cols])
  note rk = ranked_words[OF assms, folded ranked_def]
  have nv: "\<forall>a\<in>set ranked. a (str ''n_variants'') =
        Num (int (card ((\<lambda>r. r (str ''ipa'')) ` {r \<in> set (rows data).
          r (str ''language'') = a (str ''language'') \<and> r (str ''word'') = a (str ''word'')})))"
  proof
    fix a assume "a \<in> set ranked"
    then have a: "a \<in> set (map (agg_row by_word words_aggs data) (group_keys by_word data))"
      unfolding rk(5) .
    have "(\<lambda>r. r (str ''ipa'')) ` {r \<in> set (rows data).
          r (str ''language'') = a (str ''language'') \<and> r (str ''word'') = a (str ''word'')} - {NaN} =
          (\<lambda>r. r (str ''ipa'')) ` {r \<in> set (rows data).
          r (str ''language'') = a (str ''language'') \<and> r (str ''word'') = a (str ''word'')}"
      using loaded_not_missing(3)[OF assms] by auto
    with words_row_cells(3)[OF a] show "a (str ''n_variants'') =
        Num (int (card ((\<lambda>r. r (str ''ipa'')) ` {r \<in> set (rows data).
          r (str ''language'') = a (str ''language'') \<and> r (str ''word'') = a (str ''word'')})))"
      by simp
  qed
  have tk: "rows words = take (if 0 \<le> max_words then nat max_words else length ranked - nat (- max_words)) ranked"
    by (simp add: words_def head_def)
  have len: "length ranked = card (set (cells by_word data))" by (rule rk(3))
  have pos: "0 \<le> max_words \<longrightarrow>
        int (length (rows words)) = min max_words (int (card (set (cells by_word data))))"
    unfolding tk len[symmetric] by auto
  have neg: "max_words < 0 \<longrightarrow>
        int (length (rows words)) = max 0 (int (card (set (cells by_word data))) + max_words)"
    unfolding tk len[symmetric] by auto
  show ?thesis
    by (rule exI[of _ words], rule exI[of _ ranked]) (intro conjI sw rk(1) rk(2) nv rk(4) tk pos neg)
qed

lemma selected_words_words_loaded:
  "map_sum id (cells [str ''language'', str ''word'', str ''n_variants'']) (selected_words words_loaded 2) =
     Inr [[Str (str ''en''), Str (str ''bow''), Num 2], [Str (str ''en''), Str (str ''tear''), Num 2]]"
  "map_sum id (cells [str ''language'', str ''word'', str ''n_variants'']) (selected_words words_loaded 12) =
     Inr [[Str (str ''en''), Str (str ''bow''), Num 2], [Str (str ''en''), Str (str ''tear''), Num 2],
          [Str (str ''en''), Str (str ''cat''), Num 1], [Str (str ''sv''), Str (str ''banan''), Num 1]]"
  "map_sum id (cells [str ''language'', str ''word'', str ''n_variants'']) (selected_words words_loaded (- 1)) =
     Inr [[Str (str ''en''), Str (str ''bow''), Num 2], [Str (str ''en''), Str (str ''tear''), Num 2],
          [Str (str ''en''), Str (str ''cat''), Num 1]]"
  by (simp_all add: selected_words_def head_def table_eval words_loaded_def words_table_def sv_table_def load_eval
      uniq_def str_def)

lemma groups_words_loaded: "card (set (cells by_word words_loaded)) = 4"
proof -
  have c: "cells by_word words_loaded =
    [[Str (str ''en''), Str (str ''cat'')], [Str (str ''en''), Str (str ''bow'')],
     [Str (str ''en''), Str (str ''tear'')], [Str (str ''en''), Str (str ''bow'')],
     [Str (str ''en''), Str (str ''tear'')], [Str (str ''sv''), Str (str ''banan'')]]"
    by (simp add: cells_def words_loaded_def words_table_def sv_table_def load_eval csv_row_def
      row_of_def five_columns_def str_def)
  show ?thesis unfolding c card_set by simp
qed

text \<open>
  With the example directory, two words are selected when two are asked for, and all four
  with the default of twelve.
\<close>

theorem selected_words_first_groups_witness:
  "load_data words_dir = Inr words_loaded \<and>
   map_sum id (cells [str ''language'', str ''word'', str ''n_variants'']) (selected_words words_loaded 2) =
     Inr [[Str (str ''en''), Str (str ''bow''), Num 2], [Str (str ''en''), Str (str ''tear''), Num 2]] \<and>
   map_sum id (cells [str ''language'', str ''word'', str ''n_variants'']) (selected_words words_loaded 12) =
     Inr [[Str (str ''en''), Str (str ''bow''), Num 2], [Str (str ''en''), Str (str ''tear''), Num 2],
          [Str (str ''en''), Str (str ''cat''), Num 1], [Str (str ''sv''), Str (str ''banan''), Num 1]]"
proof -
  from selected_words_first_groups[OF load_words_dir, of 2]
  obtain words where "selected_words words_loaded 2 = Inr words" by (elim exE conjE)
  then show ?thesis using load_words_dir selected_words_words_loaded(1,2) by simp
qed

text \<open>
  Claim C2 as stated fails for a negative \<^verbatim>\<open>max_words\<close>: of the four groups of the
  example, \<^verbatim>\<open>max_words = -1\<close> selects three, and the minimum of -1 and 4 is not 3.
\<close>

theorem selected_words_negative_counterexample:
  "load_data words_dir = Inr words_loaded \<and>
   map_sum id (cells [str ''language'', str ''word'', str ''n_variants'']) (selected_words words_loaded (- 1)) =
     Inr [[Str (str ''en''), Str (str ''bow''), Num 2], [Str (str ''en''), Str (str ''tear''), Num 2],
          [Str (str ''en''), Str (str ''cat''), Num 1]] \<and>
   card (set (cells by_word words_loaded)) = 4 \<and>
   int (length (rows (projr (selected_words words_loaded (- 1))))) \<noteq>
     min (- 1) (int (card (set (cells by_word words_loaded))))"
proof -
  have "length (rows (projr (selected_words words_loaded (- 1)))) = 3"
    using selected_words_words_loaded(3)
    by (cases "selected_words words_loaded (- 1)") (auto simp: cells_def dest: map_eq_imp_length_eq)
  then show ?thesis
    using load_words_dir selected_words_words_loaded(3) groups_words_loaded by simp
qed

section \<open>The word cards\<close>

lemma first_by_subset: "set (first_by key seen xs) \<subseteq> set xs"
  by (induction xs arbitrary: seen) auto

lemma first_by_fresh: "x \<in> set (first_by key seen xs) \<Longrightarrow> key x \<notin> set seen"
proof (induction xs arbitrary: seen)
  case Nil
  then show ?case by simp
next
  case (Cons y ys)
  show ?case
  proof (cases "key y \<in> set seen")
    case True
    with Cons.prems have "x \<in> set (first_by key seen ys)" by simp
    then show ?thesis by (rule Cons.IH)
  next
    case False
    with Cons.prems have "x = y \<or> x \<in> set (first_by key (key y # seen) ys)" by simp
    then show ?thesis
    proof
      assume "x = y"
      with False show ?thesis by simp
    next
      assume "x \<in> set (first_by key (key y # seen) ys)"
      then have "key x \<notin> set (key y # seen)" by (rule Cons.IH)
      then show ?thesis by simp
    qed
  qed
qed

lemma first_by_image:
  assumes "\<And>x y. key x = key y \<Longrightarrow> g x = g y"
  shows "g ` set (first_by key seen xs) = g ` {x \<in> set xs. key x \<notin> set seen}"
proof (induction xs arbitrary: seen)
  case Nil
  show ?case by simp
next
  case (Cons x xs)
  show ?case
  proof (cases "key x \<in> set seen")
    case True
    then have "{y \<in> set (x # xs). key y \<notin> set seen} = {y \<in> set xs. key y \<notin> set seen}" by auto
    with True Cons[of seen] show ?thesis by simp
  next
    case False
    have "g ` {y \<in> set (x # xs). key y \<notin> set seen} =
          insert (g x) (g ` {y \<in> set xs. key y \<notin> set (key x # seen)})"
    proof (intro set_eqI iffI)
      fix v assume "v \<in> g ` {y \<in> set (x # xs). key y \<notin> set seen}"
      then obtain y where y: "v = g y" "y \<in> set (x # xs)" "key y \<notin> set seen" by auto
      show "v \<in> insert (g x) (g ` {y \<in> set xs. key y \<notin> set (key x # seen)})"
      proof (cases "key y = key x")
        case True
        then have "g y = g x" by (rule assms)
        with y show ?thesis by simp
      next
        case False
        with y have "y \<in> {y \<in> set xs. key y \<notin> set (key x # seen)}" by auto
        with y(1) show ?thesis by blast
      qed
    next
      fix v assume "v \<in> insert (g x) (g ` {y \<in> set xs. key y \<notin> set (key x # seen)})"
      with False show "v \<in> g ` {y \<in> set (x # xs). key y \<notin> set seen}" by auto
    qed
    with False Cons[of "key x # seen"] show ?thesis by simp
  qed
qed

lemma first_by_distinct:
  assumes "\<And>x y. g x = g y \<Longrightarrow> key x = key y"
  shows "distinct (map g (first_by key seen xs))"
proof (induction xs arbitrary: seen)
  case Nil
  show ?case by simp
next
  case (Cons x xs)
  show ?case
  proof (cases "key x \<in> set seen")
    case True
    with Cons[of seen] show ?thesis by simp
  next
    case False
    have "g x \<notin> g ` set (first_by key (key x # seen) xs)"
    proof
      assume "g x \<in> g ` set (first_by key (key x # seen) xs)"
      then obtain y where y: "y \<in> set (first_by key (key x # seen) xs)" and "g x = g y" by auto
      then have "key x = key y" using assms by blast
      moreover from y have "key y \<notin> set (key x # seen)" by (rule first_by_fresh)
      ultimately show False by simp
    qed
    with False Cons[of "key x # seen"] show ?thesis by simp
  qed
qed

lemma pair_le_iff: "(a, b) \<le> (c, d) \<longleftrightarrow> a < c \<or> (a = c \<and> b \<le> d)" for a c :: cell and b d :: cell
  by (auto simp: less_eq_prod_def)

lemma row_le_pairs:
  assumes "a c1 \<noteq> NaN" "a c2 \<noteq> NaN" "b c1 \<noteq> NaN" "b c2 \<noteq> NaN"
  shows "row_le [(c1, True), (c2, True)] a b \<longleftrightarrow> (a c1, a c2) \<le> (b c1, b c2)"
  using assms by (auto simp: pair_le_iff before_values)

lemma loaded_cell_eq:
  assumes "load_data d = Inr data" and "x \<in> set (rows data)"
  shows "cell_eq (x (str ''language'')) l \<longleftrightarrow> x (str ''language'') = l"
    and "cell_eq (x (str ''word'')) w \<longleftrightarrow> x (str ''word'') = w"
  using loaded_not_missing(1,2)[OF assms] by (auto simp: cell_eq_def isna_def)

lemma loaded_group:
  assumes "load_data d = Inr data"
  shows "set (filter (\<lambda>x. cell_eq (x (str ''language'')) l \<and> cell_eq (x (str ''word'')) w) (rows data)) =
         {x \<in> set (rows data). x (str ''language'') = l \<and> x (str ''word'') = w}"
  using loaded_cell_eq[OF assms] by auto

lemma word_card_loaded:
  fixes r :: row
  assumes ld: "load_data d = Inr data"
  defines "G \<equiv> filter (\<lambda>x. cell_eq (x (str ''language'')) (r (str ''language'')) \<and>
                             cell_eq (x (str ''word'')) (r (str ''word''))) (rows data)"
  shows "word_card data r =
    Inr (r (str ''language''), r (str ''word''),
         sort (uniq (filter (\<lambda>v. \<not> isna v) (map (\<lambda>x. x (str ''ipa'')) G))),
         \<lparr>columns = [str ''ipa'', str ''meaning''],
          rows = sort_by (row_le [(str ''ipa'', True), (str ''meaning'', True)])
                   (first_by (\<lambda>x. map x [str ''ipa'', str ''meaning'']) []
                      (filter (\<lambda>x. NaN \<notin> set (map x [str ''ipa'', str ''meaning'']))
                         (map (reindex [str ''ipa'', str ''meaning'']) G)))\<rparr>)"
proof -
  note has = loaded_has[OF ld]
  define subset where "subset = data\<lparr>rows := G\<rparr>"
  have w: "where_eq2 (str ''language'') (r (str ''language'')) (str ''word'') (r (str ''word'')) data = Inr subset"
  proof -
    have "missing_label data [str ''language'', str ''word''] = None"
      unfolding missing_label_None using has by simp
    then show ?thesis by (simp add: where_eq2_def subset_def G_def)
  qed
  have cs: "columns subset = columns data" and rs: "rows subset = G" by (simp_all add: subset_def)
  have c: "column subset (str ''ipa'') = Inr (map (\<lambda>x. x (str ''ipa'')) G)"
    using has by (simp add: column_def cs rs)
  have "list_all is_Str (uniq (filter (\<lambda>v. \<not> isna v) (map (\<lambda>x. x (str ''ipa'')) G)))"
  proof -
    have "\<And>v. v \<in> set (map (\<lambda>x. x (str ''ipa'')) G) \<Longrightarrow> is_Str v"
      using loaded_not_missing(6)[OF ld] unfolding G_def by auto
    then show ?thesis by (auto simp: list_all_iff)
  qed
  then have p: "py_sorted (uniq (filter (\<lambda>v. \<not> isna v) (map (\<lambda>x. x (str ''ipa'')) G))) =
                Inr (sort (uniq (filter (\<lambda>v. \<not> isna v) (map (\<lambda>x. x (str ''ipa'')) G))))"
    by (simp add: py_sorted_def)
  have s: "select_columns [str ''ipa'', str ''meaning''] subset =
             Inr \<lparr>columns = [str ''ipa'', str ''meaning''],
                  rows = map (reindex [str ''ipa'', str ''meaning'']) G\<rparr>"
  proof -
    have "missing_label subset [str ''ipa'', str ''meaning''] = None"
      unfolding missing_label_None cs using has by simp
    then show ?thesis by (simp add: select_columns_def rs)
  qed
  have v: "sort_values [(str ''ipa'', True), (str ''meaning'', True)]
             (drop_duplicates (dropna \<lparr>columns = [str ''ipa'', str ''meaning''],
                  rows = map (reindex [str ''ipa'', str ''meaning'']) G\<rparr>)) =
           Inr \<lparr>columns = [str ''ipa'', str ''meaning''],
          rows = sort_by (row_le [(str ''ipa'', True), (str ''meaning'', True)])
                   (first_by (\<lambda>x. map x [str ''ipa'', str ''meaning'']) []
                      (filter (\<lambda>x. NaN \<notin> set (map x [str ''ipa'', str ''meaning'']))
                         (map (reindex [str ''ipa'', str ''meaning'']) G)))\<rparr>"
  proof -
    have "missing_label (drop_duplicates (dropna \<lparr>columns = [str ''ipa'', str ''meaning''],
                  rows = map (reindex [str ''ipa'', str ''meaning'']) G\<rparr>))
            (map fst [(str ''ipa'', True), (str ''meaning'', True)]) = None"
      unfolding missing_label_None by (simp add: drop_duplicates_def dropna_def)
    then show ?thesis by (simp add: sort_values_def drop_duplicates_def dropna_def)
  qed
  show ?thesis unfolding word_card_def w bind_err_def sum.case c p s v ..
qed

lemma word_card_ok:
  fixes r :: row
  assumes ld: "load_data d = Inr data"
  shows "\<exists>ipas meanings. word_card data r = Inr (r (str ''language''), r (str ''word''), ipas, meanings) \<and>
           card_ok data (r (str ''language''), r (str ''word''), ipas, meanings)"
proof -
  define G where "G = filter (\<lambda>x. cell_eq (x (str ''language'')) (r (str ''language'')) \<and>
                             cell_eq (x (str ''word'')) (r (str ''word''))) (rows data)"
  define ipas where "ipas = sort (uniq (filter (\<lambda>v. \<not> isna v) (map (\<lambda>x. x (str ''ipa'')) G)))"
  define F where "F = filter (\<lambda>x. NaN \<notin> set (map x [str ''ipa'', str ''meaning'']))
                         (map (reindex [str ''ipa'', str ''meaning'']) G)"
  define U where "U = first_by (\<lambda>x. map x [str ''ipa'', str ''meaning'']) [] F"
  define meanings where "meanings = \<lparr>columns = [str ''ipa'', str ''meaning''],
          rows = sort_by (row_le [(str ''ipa'', True), (str ''meaning'', True)]) U\<rparr>"
  define p :: "row \<Rightarrow> cell \<times> cell" where "p = (\<lambda>x. (x (str ''ipa''), x (str ''meaning'')))"
  have wc: "word_card data r = Inr (r (str ''language''), r (str ''word''), ipas, meanings)"
    unfolding ipas_def meanings_def U_def F_def G_def by (rule word_card_loaded[OF ld])
  have G: "set G = {x \<in> set (rows data). x (str ''language'') = r (str ''language'') \<and>
                      x (str ''word'') = r (str ''word'')}"
    unfolding G_def by (rule loaded_group[OF ld])
  have i1: "sorted ipas" and i2: "distinct ipas" by (simp_all add: ipas_def)
  have i3: "set ipas = (\<lambda>x. x (str ''ipa'')) ` {x \<in> set (rows data).
              x (str ''language'') = r (str ''language'') \<and> x (str ''word'') = r (str ''word'')} - {NaN}"
    unfolding G[symmetric] by (auto simp: ipas_def isna_def)
  have m0: "columns meanings = [str ''ipa'', str ''meaning'']" by (simp add: meanings_def)
  have rm: "rows meanings = sort_by (row_le [(str ''ipa'', True), (str ''meaning'', True)]) U"
    by (simp add: meanings_def)
  have pF: "p ` set F = {(x (str ''ipa''), x (str ''meaning'')) | x.
             x \<in> set G \<and> x (str ''ipa'') \<noteq> NaN \<and> x (str ''meaning'') \<noteq> NaN}"
  proof -
    have re: "\<And>g. p (reindex [str ''ipa'', str ''meaning''] g) = p g"
      by (simp add: p_def reindex_def)
    have nn: "\<And>g. NaN \<notin> set (map (reindex [str ''ipa'', str ''meaning''] g) [str ''ipa'', str ''meaning'']) \<longleftrightarrow>
                 g (str ''ipa'') \<noteq> NaN \<and> g (str ''meaning'') \<noteq> NaN"
      by (auto simp: reindex_def)
    have "set F = reindex [str ''ipa'', str ''meaning''] `
                    {g \<in> set G. g (str ''ipa'') \<noteq> NaN \<and> g (str ''meaning'') \<noteq> NaN}"
    proof -
      have "filter (\<lambda>x. NaN \<notin> set (map x [str ''ipa'', str ''meaning'']))
               (map (reindex [str ''ipa'', str ''meaning'']) G) =
            map (reindex [str ''ipa'', str ''meaning''])
               (filter (\<lambda>g. g (str ''ipa'') \<noteq> NaN \<and> g (str ''meaning'') \<noteq> NaN) G)"
        unfolding filter_map comp_def nn ..
      then show ?thesis unfolding F_def by simp
    qed
    then have "p ` set F = p ` {g \<in> set G. g (str ''ipa'') \<noteq> NaN \<and> g (str ''meaning'') \<noteq> NaN}"
      by (simp add: image_image re)
    also have "\<dots> = {(x (str ''ipa''), x (str ''meaning'')) | x.
             x \<in> set G \<and> x (str ''ipa'') \<noteq> NaN \<and> x (str ''meaning'') \<noteq> NaN}"
      unfolding p_def by blast
    finally show ?thesis .
  qed
  have nnF: "\<And>x. x \<in> set F \<Longrightarrow> x (str ''ipa'') \<noteq> NaN \<and> x (str ''meaning'') \<noteq> NaN"
  proof -
    fix x assume "x \<in> set F"
    then have "NaN \<notin> set (map x [str ''ipa'', str ''meaning''])" unfolding F_def by simp
    then show "x (str ''ipa'') \<noteq> NaN \<and> x (str ''meaning'') \<noteq> NaN" by (simp add: eq_commute)
  qed
  have UF: "set U \<subseteq> set F" unfolding U_def by (rule first_by_subset)
  have pU: "p ` set U = p ` set F"
  proof -
    have "p ` set U = p ` {x \<in> set F. map x [str ''ipa'', str ''meaning''] \<notin> set []}"
      unfolding U_def by (rule first_by_image) (simp add: p_def)
    then show ?thesis by simp
  qed
  have dU: "distinct (map p U)"
    unfolding U_def by (rule first_by_distinct) (simp add: p_def)
  have ms: "mset (map p (rows meanings)) = mset (map p U)"
    unfolding rm by (rule cells_sort_by)
  have m2: "distinct (map p (rows meanings))"
    using ms dU by (metis mset_eq_imp_distinct_iff)
  have "set (map p (rows meanings)) = set (map p U)"
    using ms by (metis mset_eq_setD)
  then have m3: "set (map p (rows meanings)) = {(x (str ''ipa''), x (str ''meaning'')) | x.
             x \<in> set (rows data) \<and> x (str ''language'') = r (str ''language'') \<and>
             x (str ''word'') = r (str ''word'') \<and>
             x (str ''ipa'') \<noteq> NaN \<and> x (str ''meaning'') \<noteq> NaN}"
    using pU pF unfolding G by simp
  have "sorted_wrt (row_le [(str ''ipa'', True), (str ''meaning'', True)]) (rows meanings)"
    unfolding rm by (rule sorted_sort_values)
  then have "sorted_wrt (\<lambda>a b. p a \<le> p b) (rows meanings)"
  proof (rule sorted_wrt_mono_rel[rotated])
    fix a b
    assume "a \<in> set (rows meanings)" "b \<in> set (rows meanings)"
      and le: "row_le [(str ''ipa'', True), (str ''meaning'', True)] a b"
    then have "a \<in> set F" "b \<in> set F" using UF unfolding rm set_sort_by by auto
    then have "a (str ''ipa'') \<noteq> NaN" "a (str ''meaning'') \<noteq> NaN"
      "b (str ''ipa'') \<noteq> NaN" "b (str ''meaning'') \<noteq> NaN" using nnF by auto
    from row_le_pairs[OF this] le show "p a \<le> p b" by (simp add: p_def)
  qed
  then have m1: "sorted (map p (rows meanings))" by (simp add: sorted_map)
  have "card_ok data (r (str ''language''), r (str ''word''), ipas, meanings)"
    unfolding card_ok_def prod.case using i1 i2 i3 m0 m1 m2 m3 unfolding p_def by blast
  with wc show ?thesis by blast
qed

lemma word_cards_loop_ok:
  assumes ld: "load_data d = Inr data"
  shows "\<exists>cards. word_cards_loop data rs = Inr cards \<and>
           map (\<lambda>c. [fst c, fst (snd c)]) cards = map (\<lambda>r. map r by_word) rs \<and>
           (\<forall>c\<in>set cards. card_ok data c)"
proof (induction rs)
  case Nil
  show ?case by simp
next
  case (Cons r rs)
  from word_card_ok[OF ld, of r] obtain ipas meanings where
    c: "word_card data r = Inr (r (str ''language''), r (str ''word''), ipas, meanings)"
    and ok: "card_ok data (r (str ''language''), r (str ''word''), ipas, meanings)" by blast
  from Cons obtain cards where l: "word_cards_loop data rs = Inr cards"
    and k: "map (\<lambda>c. [fst c, fst (snd c)]) cards = map (\<lambda>r. map r by_word) rs"
    and oks: "\<forall>c\<in>set cards. card_ok data c" by blast
  have "word_cards_loop data (r # rs) = Inr ((r (str ''language''), r (str ''word''), ipas, meanings) # cards)"
    by (simp add: c l bind_err_def)
  moreover have "map (\<lambda>c. [fst c, fst (snd c)]) ((r (str ''language''), r (str ''word''), ipas, meanings) # cards) =
                 map (\<lambda>r. map r by_word) (r # rs)"
    using k by simp
  moreover have "\<forall>c\<in>set ((r (str ''language''), r (str ''word''), ipas, meanings) # cards). card_ok data c"
    using ok oks by simp
  ultimately show ?case by blast
qed

text \<open>
  Claim C8. For a loaded table, \<^verbatim>\<open>plot_word_cards\<close> makes one card for each selected
  group, in the order of the selection; the card's transcriptions are the distinct
  non-missing \<^verbatim>\<open>ipa\<close> values of the rows of the group, sorted, and its meanings are
  the distinct pairs of \<^verbatim>\<open>ipa\<close> and \<^verbatim>\<open>meaning\<close> of the group in which neither is
  missing, sorted by \<^verbatim>\<open>ipa\<close>, then by \<^verbatim>\<open>meaning\<close>.
\<close>

theorem word_cards_content:
  assumes "load_data data_dir = Inr data"
  shows "\<exists>words cards. selected_words data max_words = Inr words \<and>
     word_cards data max_words = Inr cards \<and>
     map (\<lambda>c. [fst c, fst (snd c)]) cards = cells by_word words \<and>
     (\<forall>c\<in>set cards. case c of (l, w, ipas, meanings) \<Rightarrow>
        sorted ipas \<and> distinct ipas \<and>
        set ipas = (\<lambda>x. x (str ''ipa'')) `
                     {x \<in> set (rows data). x (str ''language'') = l \<and> x (str ''word'') = w} - {NaN} \<and>
        columns meanings = [str ''ipa'', str ''meaning''] \<and>
        sorted (map (\<lambda>x. (x (str ''ipa''), x (str ''meaning''))) (rows meanings)) \<and>
        distinct (map (\<lambda>x. (x (str ''ipa''), x (str ''meaning''))) (rows meanings)) \<and>
        set (map (\<lambda>x. (x (str ''ipa''), x (str ''meaning''))) (rows meanings)) =
          {(x (str ''ipa''), x (str ''meaning'')) | x.
             x \<in> set (rows data) \<and> x (str ''language'') = l \<and> x (str ''word'') = w \<and>
             x (str ''ipa'') \<noteq> NaN \<and> x (str ''meaning'') \<noteq> NaN})"
proof -
  have cols: "set (by_word @ map snd words_aggs) \<subseteq> set (columns data)"
    using loaded_has[OF assms] by simp
  define words where "words = head max_words \<lparr>columns = by_word @ map fst words_aggs,
          rows = sort_by (row_le words_order) (map (agg_row by_word words_aggs data) (group_keys by_word data))\<rparr>"
  have sw: "selected_words data max_words = Inr words"
    unfolding words_def by (rule selected_words_ok[OF cols])
  from word_cards_loop_ok[OF assms, of "rows words"] obtain cards where
    l: "word_cards_loop data (rows words) = Inr cards"
    and k: "map (\<lambda>c. [fst c, fst (snd c)]) cards = map (\<lambda>r. map r by_word) (rows words)"
    and ok: "\<forall>c\<in>set cards. card_ok data c" by blast
  have wc: "word_cards data max_words = Inr cards"
    by (simp add: word_cards_def sw bind_err_def l)
  have k': "map (\<lambda>c. [fst c, fst (snd c)]) cards = cells by_word words"
    using k by (simp add: cells_def)
  have ok': "\<forall>c\<in>set cards. case c of (l, w, ipas, meanings) \<Rightarrow>
        sorted ipas \<and> distinct ipas \<and>
        set ipas = (\<lambda>x. x (str ''ipa'')) `
                     {x \<in> set (rows data). x (str ''language'') = l \<and> x (str ''word'') = w} - {NaN} \<and>
        columns meanings = [str ''ipa'', str ''meaning''] \<and>
        sorted (map (\<lambda>x. (x (str ''ipa''), x (str ''meaning''))) (rows meanings)) \<and>
        distinct (map (\<lambda>x. (x (str ''ipa''), x (str ''meaning''))) (rows meanings)) \<and>
        set (map (\<lambda>x. (x (str ''ipa''), x (str ''meaning''))) (rows meanings)) =
          {(x (str ''ipa''), x (str ''meaning'')) | x.
             x \<in> set (rows data) \<and> x (str ''language'') = l \<and> x (str ''word'') = w \<and>
             x (str ''ipa'') \<noteq> NaN \<and> x (str ''meaning'') \<noteq> NaN}"
    using ok unfolding card_ok_def .
  show ?thesis
    by (rule exI[of _ words], rule exI[of _ cards]) (intro conjI sw wc k' ok')
qed

lemma paths_cards_dir: "paths cards_dir = as_files [(str ''heteronyms_en.csv'', cards_table)]"
  by (simp add: cards_dir_def paths_def glob_def glob_match_def as_files_def str_def)

lemma load_cards_dir: "load_data cards_dir = Inr cards_loaded"
proof -
  have "required \<subseteq> file_columns [(str ''heteronyms_en.csv'', cards_table)]"
    by (simp add: file_columns_def cards_table_def five_columns_def required_def)
  then show ?thesis
    unfolding cards_loaded_def by (simp add: load_data_files[OF paths_cards_dir])
qed

lemmas cards_eval =
  word_cards_def selected_words_def head_def word_card_def where_eq2_def cell_eq_def column_def
  py_sorted_def select_columns_def dropna_def drop_duplicates_def card_cells_def

lemma word_cards_cards_loaded:
  "map_sum id (map card_cells) (word_cards cards_loaded 12) =
     Inr [(Str (str ''en''), Str (str ''bow''),
           [Str [98, 97, 650], Str [98, 111, 650], Str (str ''nan'')],
           [[Str [98, 97, 650], Str (str ''bend'')],
            [Str [98, 111, 650], Str (str ''weapon'')],
            [Str (str ''nan''), Str (str ''front'')]])]"
  by (simp add: cards_eval table_eval cards_loaded_def cards_table_def load_eval uniq_def str_def)

text \<open>
  One word with a repeated row, a row without meaning and a row without transcription
  (which the loader has turned into the text \<^verbatim>\<open>nan\<close>).
\<close>

theorem word_cards_content_witness:
  "load_data cards_dir = Inr cards_loaded \<and>
   map_sum id (map card_cells) (word_cards cards_loaded 12) =
     Inr [(Str (str ''en''), Str (str ''bow''),
           [Str [98, 97, 650], Str [98, 111, 650], Str (str ''nan'')],
           [[Str [98, 97, 650], Str (str ''bend'')],
            [Str [98, 111, 650], Str (str ''weapon'')],
            [Str (str ''nan''), Str (str ''front'')]])]"
proof -
  from word_cards_content[OF load_cards_dir, of 12]
  obtain cards where "word_cards cards_loaded 12 = Inr cards" by (elim exE conjE)
  then show ?thesis using load_cards_dir word_cards_cards_loaded by simp
qed

section \<open>Missing values after loading\<close>







section \<open>The loaded table is left as it is\<close>





end
